theory Spec2Isabelle
  imports Main "HOL-Library.Word" "HOL-Library.Code_Target_Nat"
begin

section \<open>Basic types\<close>

text \<open>
  Qt's fixed-width integers are machine words.  A \<open>QByteArray\<close> is a list of bytes; its
  length is a C++ \<open>int\<close>, hence below \<open>2^31\<close>.  A \<open>QString\<close> is represented by the
  bytes of its UTF-8 form, so that \<open>toUtf8\<close> and \<open>fromUtf8\<close> are the identity.
\<close>

type_synonym byte = "8 word"
type_synonym quint8 = "8 word"
type_synonym quint32 = "32 word"
type_synonym quint64 = "64 word"
type_synonym QByteArray = "byte list"

text \<open>
  A \<open>QDateTime\<close> is represented by what the stream operators exchange for it in the
  version \<open>Qt_5_0\<close> that every stream of the program is set to: the Julian day and the
  milliseconds since the start of the day of its instant in UTC (of the date and the time
  that it holds, when it is not valid), and its time specification (0 \<open>LocalTime\<close>,
  1 \<open>UTC\<close>, 2 \<open>OffsetFromUTC\<close>, 3 \<open>TimeZone\<close>).  A null date has the least Julian
  day and a null time the milliseconds \<open>-1\<close>.
\<close>

record QDateTime =
  dt_jd :: "64 word"
  dt_mds :: "32 word"
  dt_spec :: "8 word"

definition nullJd :: "64 word" where
  "nullJd = 0x8000000000000000"

definition NullTime :: "32 word" where
  "NullTime = 0xFFFFFFFF"

definition QDateTime_null :: QDateTime where
  "QDateTime_null = \<lparr>dt_jd = nullJd, dt_mds = NullTime, dt_spec = 0\<rparr>"

definition sample_date :: QDateTime where
  "sample_date = \<lparr>dt_jd = 2458850, dt_mds = 43200000, dt_spec = 0\<rparr>"

definition QByteArray_ok :: "QByteArray \<Rightarrow> bool" where
  "QByteArray_ok b \<longleftrightarrow> length b < 2 ^ 31"

section \<open>FileInfo (fileinfo.hpp)\<close>

datatype FileInfo_Status =
  Scheduled | InTransfer | Transferred | TransferRejected | TransferFailed

record FileInfo =
  m_valid :: bool
  m_filePath :: string
  m_name :: string
  m_path :: string
  m_size :: quint64
  m_lastModified :: QDateTime
  m_status :: FileInfo_Status

section \<open>Paths (QDir, QFileInfo)\<close>

text \<open>
  The functions of Qt that the program calls on paths are not part of its sources.  They
  are modelled here for a host with \<open>/\<close> as the only separator and without drive
  letters, following the documentation of Qt: \<open>QDir::cleanPath\<close> removes empty and
  \<open>.\<close> segments, resolves \<open>..\<close> against a preceding ordinary segment, keeps leading
  \<open>..\<close> segments, drops a trailing separator, turns a relative path that resolves to
  nothing into \<open>.\<close>, and leaves the empty path empty.
\<close>

definition startsWith :: "string \<Rightarrow> string \<Rightarrow> bool" where
  "startsWith s p \<longleftrightarrow> take (length p) s = p"

fun split_path :: "string \<Rightarrow> string list" where
  "split_path [] = [[]]"
| "split_path (c # cs) =
     (if c = CHR ''/'' then [] # split_path cs
      else (case split_path cs of seg # segs \<Rightarrow> (c # seg) # segs | [] \<Rightarrow> [[c]]))"

fun join_path :: "string list \<Rightarrow> string" where
  "join_path [] = []"
| "join_path [seg] = seg"
| "join_path (seg # segs) = seg @ CHR ''/'' # join_path segs"

fun normalize_segments :: "string list \<Rightarrow> string list \<Rightarrow> string list" where
  "normalize_segments acc [] = rev acc"
| "normalize_segments acc (seg # rest) =
     (if seg = [] \<or> seg = ''.'' then normalize_segments acc rest
      else if seg = ''..''
      then (case acc of
              prev # acc' \<Rightarrow>
                if prev \<noteq> ''..'' then normalize_segments acc' rest
                else normalize_segments (seg # acc) rest
            | [] \<Rightarrow> normalize_segments [seg] rest)
      else normalize_segments (seg # acc) rest)"

definition cleanPath :: "string \<Rightarrow> string" where
  "cleanPath p =
     (if p = [] then []
      else if hd p = CHR ''/'' then CHR ''/'' # join_path (normalize_segments [] (split_path (tl p)))
      else let segs = normalize_segments [] (split_path p)
           in if segs = [] then ''.'' else join_path segs)"

text \<open>
  \<open>QFileInfo::isRelative\<close>, \<open>fileName\<close>, \<open>path\<close>, \<open>baseName\<close> and
  \<open>completeSuffix\<close>.  The file name is what follows the last separator; the base name
  ends before the first dot of the file name and the complete suffix starts after it.
\<close>

definition isRelative :: "string \<Rightarrow> bool" where
  "isRelative p \<longleftrightarrow> p = [] \<or> hd p \<noteq> CHR ''/''"

definition fileName :: "string \<Rightarrow> string" where
  "fileName p = rev (takeWhile (\<lambda>c. c \<noteq> CHR ''/'') (rev p))"

definition dirPath :: "string \<Rightarrow> string" where
  "dirPath p =
     (if p = [] then []
      else if CHR ''/'' \<notin> set p then ''.''
      else let d = rev (tl (dropWhile (\<lambda>c. c \<noteq> CHR ''/'') (rev p)))
           in if d = [] then ''/'' else d)"

definition baseName :: "string \<Rightarrow> string" where
  "baseName p = takeWhile (\<lambda>c. c \<noteq> CHR ''.'') (fileName p)"

definition completeSuffix :: "string \<Rightarrow> string" where
  "completeSuffix p = tl (dropWhile (\<lambda>c. c \<noteq> CHR ''.'') (fileName p))"

section \<open>QDataStream\<close>

text \<open>
  A data stream in little-endian byte order over the bytes that can be read, with its
  status.  A read that finds too few bytes sets the status, and inside a transaction
  every later read yields the default value.
\<close>

record QDataStream =
  ds_bytes :: "byte list"
  ds_ok :: bool

fun le_encode :: "nat \<Rightarrow> nat \<Rightarrow> byte list" where
  "le_encode 0 v = []"
| "le_encode (Suc n) v = of_nat (v mod 256) # le_encode n (v div 256)"

fun le_decode :: "byte list \<Rightarrow> nat" where
  "le_decode [] = 0"
| "le_decode (b # bs) = unat b + 256 * le_decode bs"

definition read_raw :: "nat \<Rightarrow> QDataStream \<Rightarrow> byte list \<times> QDataStream" where
  "read_raw n st =
     (if \<not> ds_ok st then ([], st)
      else if length (ds_bytes st) < n then ([], st\<lparr>ds_ok := False\<rparr>)
      else (take n (ds_bytes st), st\<lparr>ds_bytes := drop n (ds_bytes st)\<rparr>))"

definition read_quint32 :: "QDataStream \<Rightarrow> quint32 \<times> QDataStream" where
  "read_quint32 st = (let (bs, st') = read_raw 4 st in (of_nat (le_decode bs), st'))"

definition read_quint64 :: "QDataStream \<Rightarrow> quint64 \<times> QDataStream" where
  "read_quint64 st = (let (bs, st') = read_raw 8 st in (of_nat (le_decode bs), st'))"

definition read_quint8 :: "QDataStream \<Rightarrow> quint8 \<times> QDataStream" where
  "read_quint8 st = (let (bs, st') = read_raw 1 st in (of_nat (le_decode bs), st'))"

text \<open>
  \<open>operator>>(QDataStream&, QDateTime&)\<close> for \<open>Qt_5_0\<close> reads a date (the Julian day,
  64 bits), a time (the milliseconds since the start of the day, 32 bits) and the time
  specification (8 bits), builds \<open>QDateTime(date, time, Qt::UTC)\<close> and converts it with
  \<open>toTimeSpec\<close>.  A date is valid between the least and the greatest Julian day of
  \<open>QDate\<close>, a time below the milliseconds of a day; the constructor takes midnight for
  an invalid time beside a valid date; \<open>toTimeSpec\<close> turns \<open>OffsetFromUTC\<close> (without
  an offset) into \<open>UTC\<close> and \<open>TimeZone\<close> into \<open>LocalTime\<close>.  A time specification
  outside the enumeration is kept as read, and so is a valid date whose instant in
  milliseconds does not fit 64 bits: C++ does not say what happens to either.
\<close>

definition QDate_isValid :: "64 word \<Rightarrow> bool" where
  "QDate_isValid jd \<longleftrightarrow> - 784350574879 \<le> sint jd \<and> sint jd \<le> 784354017364"

definition QTime_isValid :: "32 word \<Rightarrow> bool" where
  "QTime_isValid mds \<longleftrightarrow> unat mds < 86400000"

definition toTimeSpec :: "8 word \<Rightarrow> 8 word" where
  "toTimeSpec ts = (if ts = 2 then 1 else if ts = 3 then 0 else ts)"

definition QDateTime_fromStream :: "64 word \<Rightarrow> 32 word \<Rightarrow> 8 word \<Rightarrow> QDateTime" where
  "QDateTime_fromStream jd mds ts =
     \<lparr>dt_jd = (if QDate_isValid jd then jd else nullJd),
      dt_mds = (if QTime_isValid mds then mds else if QDate_isValid jd then 0 else NullTime),
      dt_spec = toTimeSpec ts\<rparr>"

definition read_QDateTime :: "QDataStream \<Rightarrow> QDateTime \<times> QDataStream" where
  "read_QDateTime st =
     (let (jd, st1) = read_quint64 st;
          (mds, st2) = read_quint32 st1;
          (ts, st3) = read_quint8 st2
      in (QDateTime_fromStream jd mds ts, st3))"

text \<open>
  A byte array is its length as a 32-bit number followed by its bytes; the length
  \<open>0xFFFFFFFF\<close> announces a null array.
\<close>

definition read_QByteArray :: "QDataStream \<Rightarrow> QByteArray \<times> QDataStream" where
  "read_QByteArray st =
     (let (len, st1) = read_quint32 st
      in if \<not> ds_ok st1 \<or> len = 0xFFFFFFFF then ([], st1)
         else read_raw (unat len) st1)"

definition write_quint32 :: "quint32 \<Rightarrow> byte list" where
  "write_quint32 w = le_encode 4 (unat w)"

definition write_quint64 :: "quint64 \<Rightarrow> byte list" where
  "write_quint64 w = le_encode 8 (unat w)"

text \<open>
  \<open>operator<<(QDataStream&, const QDateTime&)\<close> for \<open>Qt_5_0\<close>: 13 bytes.
\<close>

definition write_QDateTime :: "QDateTime \<Rightarrow> byte list" where
  "write_QDateTime t = write_quint64 (dt_jd t) @ write_quint32 (dt_mds t) @ [dt_spec t]"

text \<open>
  The dates that read back as they were written: valid ones in local time or in UTC.
\<close>

definition QDateTime_wf :: "QDateTime \<Rightarrow> bool" where
  "QDateTime_wf t \<longleftrightarrow>
     QDate_isValid (dt_jd t) \<and> QTime_isValid (dt_mds t) \<and> (dt_spec t = 0 \<or> dt_spec t = 1)"

definition write_QByteArray :: "QByteArray \<Rightarrow> byte list" where
  "write_QByteArray b = write_quint32 (of_nat (length b)) @ b"

text \<open>
  A \<open>QString\<close> is represented by its UTF-8 bytes: \<open>toUtf8\<close> lists them and
  \<open>fromUtf8\<close> reads them back.
\<close>

definition toUtf8 :: "string \<Rightarrow> QByteArray" where
  "toUtf8 s = map (\<lambda>c. of_nat (of_char c)) s"

definition fromUtf8 :: "QByteArray \<Rightarrow> string" where
  "fromUtf8 b = map (\<lambda>x. char_of (unat x)) b"

text \<open>
  \<open>QString::length\<close> counts UTF-16 code units: one for each character, and two for a
  character outside the basic plane, which is a sequence of four bytes in UTF-8.
\<close>

definition QString_length :: "string \<Rightarrow> nat" where
  "QString_length s =
     length (filter (\<lambda>c. \<not> (128 \<le> (of_char c :: nat) \<and> (of_char c :: nat) < 192)) s) +
     length (filter (\<lambda>c. 240 \<le> (of_char c :: nat)) s)"

section \<open>FileInfo (fileinfo.cpp)\<close>

text \<open>
  The constructor \<open>FileInfo(filePath, size, lastModified)\<close>.
\<close>

definition looks_strange :: "string \<Rightarrow> bool" where
  "looks_strange filePath \<longleftrightarrow>
     filePath \<noteq> cleanPath filePath \<or> startsWith filePath ''../'' \<or> \<not> isRelative filePath"

definition FileInfo_new :: "string \<Rightarrow> quint64 \<Rightarrow> QDateTime \<Rightarrow> FileInfo" where
  "FileInfo_new filePath sz lastModified =
     (let f = \<lparr>m_valid = False, m_filePath = filePath, m_name = [], m_path = [],
                m_size = sz, m_lastModified = lastModified, m_status = Scheduled\<rparr>
      in if looks_strange filePath then f
         else f\<lparr>m_name := fileName filePath, m_path := dirPath filePath, m_valid := True\<rparr>)"

text \<open>
  The default constructor only sets \<open>m_valid\<close>; the strings are empty, the date is
  null, and the size and the status keep whatever the memory holds, here \<open>size0\<close> and
  \<open>status0\<close>.
\<close>

definition FileInfo_default :: "quint64 \<Rightarrow> FileInfo_Status \<Rightarrow> FileInfo" where
  "FileInfo_default size0 status0 =
     \<lparr>m_valid = False, m_filePath = [], m_name = [], m_path = [], m_size = size0,
      m_lastModified = QDateTime_null, m_status = status0\<rparr>"

text \<open>
  \<open>operator<<(QDataStream&, const FileInfo&)\<close>, as the bytes it appends to the stream.
\<close>

definition FileInfo_write :: "FileInfo \<Rightarrow> byte list" where
  "FileInfo_write fileInfo =
     (if \<not> m_valid fileInfo \<or> m_status fileInfo \<noteq> Scheduled then []
      else write_QByteArray (toUtf8 (m_filePath fileInfo)) @
           write_quint64 (m_size fileInfo) @
           write_QDateTime (m_lastModified fileInfo))"

text \<open>
  \<open>operator>>(QDataStream&, FileInfo&)\<close>: it reads into an existing object, and
  assigns every member except the status.
\<close>

definition FileInfo_read :: "QDataStream \<Rightarrow> FileInfo \<Rightarrow> FileInfo \<times> QDataStream" where
  "FileInfo_read stream fileInfo =
     (let f0 = fileInfo\<lparr>m_valid := False\<rparr>;
          (fileName', st1) = read_QByteArray stream;
          f1 = f0\<lparr>m_filePath := fromUtf8 fileName'\<rparr>;
          (sz, st2) = read_quint64 st1;
          (lastModified, st3) = read_QDateTime st2;
          f2 = f1\<lparr>m_size := sz, m_lastModified := lastModified\<rparr>
      in if \<not> ds_ok st3 then (f2, st3)
         else if looks_strange (m_filePath f2) then (f2, st3)
         else (f2\<lparr>m_name := fileName (m_filePath f2), m_path := dirPath (m_filePath f2),
                   m_valid := True\<rparr>, st3))"

definition sample_target :: FileInfo where
  "sample_target = FileInfo_default 0 TransferFailed"

text \<open>
  The validity invariants of a descriptor that is ready to be put on the wire.
\<close>

definition FileInfo_wf :: "FileInfo \<Rightarrow> bool" where
  "FileInfo_wf D \<longleftrightarrow>
     m_valid D \<and> m_status D = Scheduled \<and> \<not> looks_strange (m_filePath D) \<and>
     m_name D = fileName (m_filePath D) \<and> m_path D = dirPath (m_filePath D)"

section \<open>FileInTransfer (fileintransfer.cpp)\<close>

text \<open>
  \<open>MAX_CHUNK_SIZE\<close> of fileintransfer.hpp.
\<close>

definition MAX_CHUNK_SIZE :: quint64 where
  "MAX_CHUNK_SIZE = 8192"

text \<open>
  The members of the abstract base class \<open>FileInTransfer\<close>.  The absolute path is only
  used for logging and for naming the file handle, which is modelled separately.
\<close>

record FileInTransfer =
  m_fileInfo :: FileInfo
  m_error :: bool
  m_exists :: bool
  m_remainingBytes :: quint64
  m_transferStarted :: bool
  m_committed :: bool
  m_rollbacked :: bool

text \<open>
  The \<open>QSaveFile\<close> of the writer: whether it is open, the bytes written so far to the
  temporary file, whether \<open>cancelWriting\<close> was called, and the content that a
  successful \<open>commit\<close> renamed into place at the destination name.
\<close>

record QSaveFile =
  sf_isOpen :: bool
  sf_tmpData :: "byte list"
  sf_cancelled :: bool
  sf_target :: "byte list option"

definition QSaveFile_closed :: QSaveFile where
  "QSaveFile_closed =
     \<lparr>sf_isOpen = False, sf_tmpData = [], sf_cancelled = False, sf_target = None\<rparr>"

text \<open>
  \<open>QSaveFile::write\<close>: the device reports \<open>wr\<close> as the number of bytes written
  (\<open>-1\<close> on error); that many bytes of the buffer reach the temporary file.
\<close>

definition QSaveFile_write :: "QSaveFile \<Rightarrow> QByteArray \<Rightarrow> int \<Rightarrow> QSaveFile" where
  "QSaveFile_write f buffer wr = f\<lparr>sf_tmpData := sf_tmpData f @ take (nat wr) buffer\<rparr>"

text \<open>
  \<open>QSaveFile::commit\<close>: \<open>cr\<close> tells whether the operating system lets the rename
  succeed.  A cancelled or closed file never commits.
\<close>

definition QSaveFile_commit :: "QSaveFile \<Rightarrow> bool \<Rightarrow> bool \<times> QSaveFile" where
  "QSaveFile_commit f cr =
     (if sf_isOpen f \<and> \<not> sf_cancelled f \<and> cr
      then (True, f\<lparr>sf_isOpen := False, sf_target := Some (sf_tmpData f)\<rparr>)
      else (False, f\<lparr>sf_isOpen := False\<rparr>))"

definition QSaveFile_cancelWriting :: "QSaveFile \<Rightarrow> QSaveFile" where
  "QSaveFile_cancelWriting f = f\<lparr>sf_cancelled := True\<rparr>"

record FileInTransferWriter = FileInTransfer +
  m_file :: QSaveFile

text \<open>
  The constructor \<open>FileInTransferWriter(basePath, fileInfo)\<close>.  The answers of the file
  system are parameters: \<open>ex\<close> for \<open>basePath.exists(filePath)\<close>, \<open>mk\<close> for
  \<open>basePath.mkpath(path)\<close> and \<open>op\<close> for \<open>m_file.open(WriteOnly)\<close>.  As in the source, a
  failed \<open>mkpath\<close> does not return early and the file is still opened.
\<close>

definition FileInTransferWriter_new ::
    "FileInfo \<Rightarrow> bool \<Rightarrow> bool \<Rightarrow> bool \<Rightarrow> FileInTransferWriter" where
  "FileInTransferWriter_new fileInfo ex mk op =
     (let w = \<lparr>m_fileInfo = fileInfo, m_error = \<not> m_valid fileInfo, m_exists = ex,
                m_remainingBytes = m_size fileInfo, m_transferStarted = False,
                m_committed = False, m_rollbacked = False, m_file = QSaveFile_closed\<rparr>
      in if m_error w then w
         else let w1 = (if \<not> mk then w\<lparr>m_error := True\<rparr> else w)
              in if \<not> op then w1\<lparr>m_error := True\<rparr>
                 else w1\<lparr>m_file := QSaveFile_closed\<lparr>sf_isOpen := True\<rparr>\<rparr>)"

definition Writer_processNextDataChunk ::
    "FileInTransferWriter \<Rightarrow> QByteArray \<Rightarrow> int \<Rightarrow> bool \<times> FileInTransferWriter" where
  "Writer_processNextDataChunk w buffer wr =
     (let w1 = w\<lparr>m_transferStarted := True\<rparr>
      in if m_error w1 \<or> \<not> sf_isOpen (m_file w1) \<or>
            m_remainingBytes w1 < of_nat (length buffer)
         then (False, w1\<lparr>m_error := True\<rparr>)
         else let w2 = w1\<lparr>m_file := QSaveFile_write (m_file w1) buffer wr\<rparr>
              in if wr \<noteq> int (length buffer) then (False, w2\<lparr>m_error := True\<rparr>)
                 else (True, w2\<lparr>m_remainingBytes :=
                                   m_remainingBytes w2 - of_nat (length buffer)\<rparr>))"

definition Writer_rollback :: "FileInTransferWriter \<Rightarrow> bool \<times> FileInTransferWriter" where
  "Writer_rollback w =
     (if m_committed w then (False, w)
      else (True, w\<lparr>m_file := QSaveFile_cancelWriting (m_file w),
                     m_rollbacked := True, m_error := True\<rparr>))"

definition Writer_commit :: "FileInTransferWriter \<Rightarrow> bool \<Rightarrow> bool \<times> FileInTransferWriter" where
  "Writer_commit w cr =
     (let w1 = w\<lparr>m_transferStarted := True\<rparr>
      in if m_committed w1 then (m_committed w1, w1)
         else if \<not> sf_isOpen (m_file w1) \<or> m_error w1 \<or> m_remainingBytes w1 \<noteq> 0
         then (False, snd (Writer_rollback w1))
         else let (ok, f) = QSaveFile_commit (m_file w1) cr;
                  w2 = w1\<lparr>m_file := f\<rparr>
              in if ok then (True, w2\<lparr>m_committed := True\<rparr>)
                 else (False, snd (Writer_rollback w2)))"

text \<open>
  The reader keeps a \<open>QFile\<close>, of which only the open flag matters here.  What the
  device and the file system answer is again passed in: \<open>rd\<close> is the data returned by
  \<open>m_file.read\<close> (\<open>None\<close> for an error), \<open>atEnd\<close> the answer of \<open>m_file.atEnd()\<close>, and
  \<open>unchanged\<close> tells whether the file on disk still exists, is a readable file and has
  the size and modification time of the descriptor.
\<close>

record FileInTransferReader = FileInTransfer +
  m_rfile_isOpen :: bool

definition Reader_updated :: "FileInTransferReader \<Rightarrow> bool \<Rightarrow> bool" where
  "Reader_updated r unchanged \<longleftrightarrow> \<not> (m_exists r \<and> unchanged)"

definition FileInTransferReader_new ::
    "FileInfo \<Rightarrow> bool \<Rightarrow> bool \<Rightarrow> bool \<Rightarrow> FileInTransferReader" where
  "FileInTransferReader_new fileInfo ex unchanged op =
     (let r = \<lparr>m_fileInfo = fileInfo, m_error = \<not> m_valid fileInfo, m_exists = ex,
                m_remainingBytes = m_size fileInfo, m_transferStarted = False,
                m_committed = False, m_rollbacked = False, m_rfile_isOpen = False\<rparr>
      in if m_error r \<or> Reader_updated r unchanged then r\<lparr>m_error := True\<rparr>
         else if \<not> op then r\<lparr>m_error := True\<rparr>
         else r\<lparr>m_rfile_isOpen := True\<rparr>)"

definition Reader_processNextDataChunk ::
    "FileInTransferReader \<Rightarrow> QByteArray option \<Rightarrow>
     bool \<times> FileInTransferReader \<times> QByteArray" where
  "Reader_processNextDataChunk r rd =
     (let r1 = r\<lparr>m_transferStarted := True\<rparr>
      in if m_error r1 \<or> m_remainingBytes r1 = 0 \<or> \<not> m_rfile_isOpen r1
         then (False, r1\<lparr>m_error := True\<rparr>, [])
         else let toRead = (if m_remainingBytes r1 > MAX_CHUNK_SIZE then MAX_CHUNK_SIZE
                            else m_remainingBytes r1)
              in case rd of
                   None \<Rightarrow> (False, r1\<lparr>m_error := True\<rparr>, [])
                 | Some bs \<Rightarrow>
                     if length bs \<noteq> unat toRead then (False, r1\<lparr>m_error := True\<rparr>, bs)
                     else (True, r1\<lparr>m_remainingBytes := m_remainingBytes r1 - toRead\<rparr>, bs))"

definition Reader_rollback :: "FileInTransferReader \<Rightarrow> bool \<times> FileInTransferReader" where
  "Reader_rollback r =
     (if m_committed r then (False, r)
      else (True, r\<lparr>m_rfile_isOpen := False, m_rollbacked := True, m_error := True\<rparr>))"

definition Reader_commit ::
    "FileInTransferReader \<Rightarrow> bool \<Rightarrow> bool \<Rightarrow> bool \<times> FileInTransferReader" where
  "Reader_commit r atEnd unchanged =
     (let r1 = r\<lparr>m_transferStarted := True\<rparr>
      in if m_committed r1 then (m_committed r1, r1)
         else if m_error r1 \<or> m_remainingBytes r1 \<noteq> 0 \<or> \<not> atEnd \<or>
                 Reader_updated r1 unchanged
         then (False, snd (Reader_rollback r1))
         else (True, r1\<lparr>m_rfile_isOpen := False, m_committed := True\<rparr>))"

text \<open>
  Arbitrary call sequences on one instance: each call with the answers the device
  gives to it.
\<close>

datatype writer_call = W_Chunk QByteArray int | W_Commit bool | W_Rollback

fun writer_apply :: "FileInTransferWriter \<Rightarrow> writer_call \<Rightarrow> FileInTransferWriter" where
  "writer_apply w (W_Chunk buffer wr) = snd (Writer_processNextDataChunk w buffer wr)"
| "writer_apply w (W_Commit cr) = snd (Writer_commit w cr)"
| "writer_apply w W_Rollback = snd (Writer_rollback w)"

datatype reader_call = R_Chunk "QByteArray option" | R_Commit bool bool | R_Rollback

fun reader_apply :: "FileInTransferReader \<Rightarrow> reader_call \<Rightarrow> FileInTransferReader" where
  "reader_apply r (R_Chunk rd) = fst (snd (Reader_processNextDataChunk r rd))"
| "reader_apply r (R_Commit atEnd unchanged) = snd (Reader_commit r atEnd unchanged)"
| "reader_apply r R_Rollback = snd (Reader_rollback r)"

subsection \<open>Invariants of a FileInTransfer instance\<close>

text \<open>
  The flags of an instance: a committed instance has started, a rolled-back instance
  carries the error flag, and the two final flags exclude each other.
\<close>

definition writer_flags_inv :: "FileInTransferWriter \<Rightarrow> bool" where
  "writer_flags_inv w \<longleftrightarrow>
     (m_committed w \<longrightarrow> m_transferStarted w) \<and> (m_rollbacked w \<longrightarrow> m_error w) \<and>
     \<not> (m_committed w \<and> m_rollbacked w)"

definition reader_flags_inv :: "FileInTransferReader \<Rightarrow> bool" where
  "reader_flags_inv r \<longleftrightarrow>
     (m_committed r \<longrightarrow> m_transferStarted r) \<and> (m_rollbacked r \<longrightarrow> m_error r) \<and>
     \<not> (m_committed r \<and> m_rollbacked r)"

text \<open>
  A call is admissible when its buffer is a \<open>QByteArray\<close>.  The size invariant of a
  writer for a descriptor of size \<open>S\<close> relates the bytes in the temporary file, the
  remaining byte count and the content renamed into place.
\<close>

fun writer_call_ok :: "writer_call \<Rightarrow> bool" where
  "writer_call_ok (W_Chunk buffer wr) = QByteArray_ok buffer"
| "writer_call_ok _ = True"

definition writer_size_inv :: "quint64 \<Rightarrow> FileInTransferWriter \<Rightarrow> bool" where
  "writer_size_inv S w \<longleftrightarrow>
     length (sf_tmpData (m_file w)) \<le> unat S \<and>
     (\<not> m_error w \<longrightarrow> length (sf_tmpData (m_file w)) + unat (m_remainingBytes w) = unat S) \<and>
     (\<forall>d. sf_target (m_file w) = Some d \<longrightarrow> m_committed w \<and> length d = unat S) \<and>
     (m_committed w \<longrightarrow> sf_target (m_file w) \<noteq> None \<and> m_remainingBytes w = 0)"

subsection \<open>Sample instances\<close>

definition sample_file :: "quint64 \<Rightarrow> FileInfo" where
  "sample_file n = \<lparr>m_valid = True, m_filePath = ''a.txt'', m_name = ''a.txt'',
     m_path = ''.'', m_size = n, m_lastModified = sample_date, m_status = Scheduled\<rparr>"

section \<open>Users and the peers list (user.cpp, users.cpp)\<close>

text \<open>
  The special ages of \<open>User::Age\<close> (user.hpp) and the constants used by the
  constructors.
\<close>

definition AgeMax :: quint8 where
  "AgeMax = 4"

definition AgeUnconfirmed :: quint8 where
  "AgeUnconfirmed = 254"

definition AgeInfinity :: quint8 where
  "AgeInfinity = 255"

definition STRING_LEN :: nat where
  "STRING_LEN = 16"

definition NO_NAME :: string where
  "NO_NAME = ''*** NO NAME ***''"

definition AGING_INTERVAL :: nat where
  "AGING_INTERVAL = 5000"

datatype Action = Ask | Accept | Reject

record ReceptionPreferences =
  rp_action :: Action
  rp_path :: string
  rp_folderUser :: bool
  rp_folderDate :: bool

text \<open>
  \<open>UserInfo\<close>: the icon is represented by the hash of the cached image when one is set,
  the reception preferences by \<open>None\<close> when the defaults are to be used.
\<close>

record UserInfo =
  m_uuid :: string
  m_firstName :: string
  m_lastName :: string
  m_ipv4Address :: quint32
  m_dataPort :: "16 word"
  m_iconPort :: "16 word"
  m_icon :: "QByteArray option"
  m_preferences :: "ReceptionPreferences option"

text \<open>
  A \<open>User\<close> object.  The field \<open>u_valid\<close> is the member \<open>m_valid\<close>; \<open>m_info\<close> is a
  scoped pointer, null until a constructor fills it.  The member \<open>m_localUuid\<close> of
  \<open>PeerUser\<close> and the icon client only serve the creation of senders and the download of
  icons, and are left out.
\<close>

record PeerUser =
  u_valid :: bool
  m_toBeSaved :: bool
  m_age :: quint8
  m_info :: "UserInfo option"

definition localUser :: "PeerUser \<Rightarrow> bool" where
  "localUser u \<longleftrightarrow> m_age u = AgeInfinity"

definition unconfirmed :: "PeerUser \<Rightarrow> bool" where
  "unconfirmed u \<longleftrightarrow> m_age u = AgeUnconfirmed"

text \<open>
  JSON objects as association lists; \<open>json[key].toString()\<close> and
  \<open>json[key].toBool(d)\<close> fall back to the empty string and to \<open>d\<close>.
\<close>

datatype QJsonValue = JBool bool | JString string | JOther

type_synonym QJsonObject = "(string \<times> QJsonValue) list"

definition json_contains :: "QJsonObject \<Rightarrow> string \<Rightarrow> bool" where
  "json_contains j k \<longleftrightarrow> map_of j k \<noteq> None"

definition json_toString :: "QJsonObject \<Rightarrow> string \<Rightarrow> string" where
  "json_toString j k = (case map_of j k of Some (JString s) \<Rightarrow> s | _ \<Rightarrow> [])"

definition json_toBool :: "QJsonObject \<Rightarrow> string \<Rightarrow> bool \<Rightarrow> bool" where
  "json_toBool j k d = (case map_of j k of Some (JBool b) \<Rightarrow> b | _ \<Rightarrow> d)"

definition json_toAction :: "QJsonObject \<Rightarrow> Action" where
  "json_toAction j =
     (case map_of j ''RP_Action'' of
        Some (JString s) \<Rightarrow>
          (if s = ''Accept'' then Accept else if s = ''Reject'' then Reject else Ask)
      | _ \<Rightarrow> Ask)"

definition Action_toString :: "Action \<Rightarrow> string" where
  "Action_toString a = (case a of Ask \<Rightarrow> ''Ask'' | Accept \<Rightarrow> ''Accept'' | Reject \<Rightarrow> ''Reject'')"

text \<open>
  \<open>QUuid(text).isNull()\<close>.  The constructor gives the null identifier to a text of
  fewer than 36 characters (37 when it starts with a brace) and to one that, after an
  optional opening brace, does not start with 8, 4, 4, 4 and 12 hexadecimal digits
  separated by dashes; what follows them is not looked at.
\<close>

definition isHexDigit :: "char \<Rightarrow> bool" where
  "isHexDigit c \<longleftrightarrow>
     (48 \<le> (of_char c :: nat) \<and> (of_char c :: nat) \<le> 57) \<or>
     (97 \<le> (of_char c :: nat) \<and> (of_char c :: nat) \<le> 102) \<or>
     (65 \<le> (of_char c :: nat) \<and> (of_char c :: nat) \<le> 70)"

definition QUuid_digits :: "string \<Rightarrow> string option" where
  "QUuid_digits text =
     (if QString_length text < 36 then None
      else if hd text = CHR ''{'' \<and> QString_length text < 37 then None
      else let t = (if hd text = CHR ''{'' then tl text else text);
               ds = take 8 t @ take 4 (drop 9 t) @ take 4 (drop 14 t) @ take 4 (drop 19 t) @
                    take 12 (drop 24 t)
           in if 36 \<le> length t \<and> t ! 8 = CHR ''-'' \<and> t ! 13 = CHR ''-'' \<and>
                 t ! 18 = CHR ''-'' \<and> t ! 23 = CHR ''-'' \<and> list_all isHexDigit ds
              then Some ds else None)"

definition QUuid_isNull :: "string \<Rightarrow> bool" where
  "QUuid_isNull text =
     (case QUuid_digits text of None \<Rightarrow> True | Some ds \<Rightarrow> list_all (\<lambda>c. c = CHR ''0'') ds)"

text \<open>
  \<open>User::User(confPath, json, parent)\<close>.  \<open>age0\<close> is the content of the member
  \<open>m_age\<close> before the constructor assigns it (the base constructor leaves it
  uninitialised), and \<open>icons\<close> gives, for a user identifier and a hash, the icon that
  can be read from the cache.  The constructor of \<open>ReceptionPreferences\<close> cleans the
  path.
\<close>

definition User_fromJson ::
    "quint8 \<Rightarrow> (string \<Rightarrow> string \<Rightarrow> QByteArray option) \<Rightarrow> QJsonObject \<Rightarrow> PeerUser" where
  "User_fromJson age0 icons json =
     (let u = \<lparr>u_valid = False, m_toBeSaved = False, m_age = age0, m_info = None\<rparr>
      in if \<not> json_contains json ''UUID'' \<or> \<not> json_contains json ''First'' \<or>
            \<not> json_contains json ''Last'' then u
         else let uuid = json_toString json ''UUID'';
                  firstName = json_toString json ''First'';
                  lastName = json_toString json ''Last''
              in if QUuid_isNull uuid \<or> QString_length firstName > STRING_LEN \<or>
                    QString_length lastName > STRING_LEN then u
                 else let firstName' = (if firstName = [] \<and> lastName = [] then NO_NAME
                                        else firstName);
                          me = json_toBool json ''Me'' False;
                          u1 = u\<lparr>m_age := (if me then AgeInfinity else AgeUnconfirmed)\<rparr>;
                          iconFlag = json_toBool json ''Icon'' False;
                          icon = (if iconFlag
                                  then (if \<not> json_contains json ''IconHash'' then None
                                        else icons uuid (json_toString json ''IconHash''))
                                  else None);
                          u2 = (if iconFlag \<and> icon = None then u1\<lparr>m_toBeSaved := True\<rparr>
                                else u1);
                          useDefaults = (json_toBool json ''RP_UseDefaults'' True \<or>
                                         \<not> json_contains json ''RP_Action'' \<or>
                                         \<not> json_contains json ''RP_Path'');
                          preferences =
                            (if useDefaults then None
                             else Some \<lparr>rp_action = json_toAction json,
                                         rp_path = cleanPath (json_toString json ''RP_Path''),
                                         rp_folderUser = json_toBool json ''RP_FolderUser'' False,
                                         rp_folderDate = json_toBool json ''RP_FolderDate'' False\<rparr>)
                      in u2\<lparr>m_info := Some \<lparr>m_uuid = uuid, m_firstName = firstName',
                                  m_lastName = lastName, m_ipv4Address = 0, m_dataPort = 0,
                                  m_iconPort = 0, m_icon = icon,
                                  m_preferences = preferences\<rparr>,
                             u_valid := True\<rparr>)"

text \<open>
  \<open>PeerUser::PeerUser(confPath, json, localUuid, parent)\<close>.
\<close>

definition PeerUser_fromJson ::
    "quint8 \<Rightarrow> (string \<Rightarrow> string \<Rightarrow> QByteArray option) \<Rightarrow> QJsonObject \<Rightarrow> PeerUser" where
  "PeerUser_fromJson age0 icons json =
     (let u = User_fromJson age0 icons json
      in if u_valid u \<and> localUser u then u\<lparr>u_valid := False\<rparr> else u)"

text \<open>
  \<open>User::save(json)\<close>, as the object it produces.
\<close>

definition User_save :: "PeerUser \<Rightarrow> QJsonObject" where
  "User_save u =
     (case m_info u of
        None \<Rightarrow> []
      | Some i \<Rightarrow>
          if \<not> u_valid u then []
          else [(''Me'', JBool (localUser u)), (''UUID'', JString (m_uuid i)),
                (''First'', JString (m_firstName i)), (''Last'', JString (m_lastName i)),
                (''Icon'', JBool (m_icon i \<noteq> None))] @
               (case m_icon i of None \<Rightarrow> [] | Some h \<Rightarrow> [(''IconHash'', JOther)]) @
               [(''RP_UseDefaults'', JBool (m_preferences i = None))] @
               (case m_preferences i of
                  None \<Rightarrow> []
                | Some p \<Rightarrow>
                    [(''RP_Action'', JString (Action_toString (rp_action p))),
                     (''RP_Path'', JString (rp_path p)),
                     (''RP_FolderUser'', JBool (rp_folderUser p)),
                     (''RP_FolderDate'', JBool (rp_folderDate p))]))"

text \<open>
  The datagrams of the discovery protocol, as far as the peers list reads them.
\<close>

record SyfdDatagram =
  d_valid :: bool
  d_flagQuit :: bool
  d_flagIcon :: bool
  d_uuid :: string
  d_firstName :: string
  d_lastName :: string
  d_ipv4Addr :: quint32
  d_dataPort :: "16 word"
  d_iconPort :: "16 word"
  d_iconHash :: QByteArray

text \<open>
  \<open>PeerUser::updatePeerIcon\<close>: the second component tells whether \<open>updatedIcon\<close> is
  emitted at once.  Starting the icon client changes nothing in the user object.
\<close>

definition updatePeerIcon :: "PeerUser \<Rightarrow> bool \<Rightarrow> QByteArray \<Rightarrow> PeerUser \<times> bool" where
  "updatePeerIcon u iconSet hash =
     (case m_info u of
        None \<Rightarrow> (u, False)
      | Some i \<Rightarrow>
          if iconSet then (u, False)
          else if m_icon i \<noteq> None
               then (u\<lparr>m_info := Some (i\<lparr>m_icon := None\<rparr>), m_toBeSaved := True\<rparr>, True)
               else (u, False))"

text \<open>
  \<open>PeerUser::PeerUser(confPath, datagram, localUuid, parent)\<close>.
\<close>

definition PeerUser_fromDatagram :: "SyfdDatagram \<Rightarrow> PeerUser" where
  "PeerUser_fromDatagram d =
     (let i = \<lparr>m_uuid = d_uuid d, m_firstName = d_firstName d, m_lastName = d_lastName d,
                m_ipv4Address = d_ipv4Addr d, m_dataPort = d_dataPort d,
                m_iconPort = d_iconPort d, m_icon = None, m_preferences = None\<rparr>;
          i1 = (if m_firstName i = [] \<and> m_lastName i = [] then i\<lparr>m_firstName := NO_NAME\<rparr>
                else i);
          u = \<lparr>u_valid = d_valid d, m_toBeSaved = True, m_age = 0, m_info = Some i1\<rparr>
      in (fst (updatePeerIcon u (d_flagIcon d) (d_iconHash d)))\<lparr>m_age := 0\<rparr>)"

text \<open>
  \<open>PeerUser::incrementAge\<close>, \<open>PeerUser::setUnconfirmed\<close> and \<open>PeerUser::update\<close>.
  The returned flag is the return value of the method.
\<close>

definition PeerUser_incrementAge :: "PeerUser \<Rightarrow> bool \<times> PeerUser" where
  "PeerUser_incrementAge u =
     (if m_age u = AgeUnconfirmed then (False, u)
      else let u1 = u\<lparr>m_age := m_age u + 1\<rparr>
           in if m_age u1 > AgeMax then (True, u1\<lparr>m_age := AgeUnconfirmed\<rparr>)
              else (False, u1))"

definition PeerUser_setUnconfirmed :: "PeerUser \<Rightarrow> bool \<times> PeerUser" where
  "PeerUser_setUnconfirmed u =
     (if m_age u \<noteq> AgeUnconfirmed then (True, u\<lparr>m_age := AgeUnconfirmed\<rparr>)
      else (False, u))"

definition PeerUser_update :: "PeerUser \<Rightarrow> SyfdDatagram \<Rightarrow> (bool \<times> PeerUser) \<times> bool" where
  "PeerUser_update u d =
     (case m_info u of
        None \<Rightarrow> ((False, u), False)
      | Some i \<Rightarrow>
          let updatedFlag = (m_age u = AgeUnconfirmed);
              u0 = u\<lparr>m_age := 0\<rparr>;
              names = (m_firstName i \<noteq> d_firstName d \<or> m_lastName i \<noteq> d_lastName d);
              i1 = (if names then i\<lparr>m_firstName := d_firstName d, m_lastName := d_lastName d\<rparr>
                    else i);
              u1 = (if names then u0\<lparr>m_toBeSaved := True\<rparr> else u0);
              addrs = (m_ipv4Address i1 \<noteq> d_ipv4Addr d \<or> m_dataPort i1 \<noteq> d_dataPort d \<or>
                       m_iconPort i1 \<noteq> d_iconPort d);
              i2 = (if addrs then i1\<lparr>m_ipv4Address := d_ipv4Addr d, m_dataPort := d_dataPort d,
                                      m_iconPort := d_iconPort d\<rparr>
                    else i1);
              (u2, iconSignal) = updatePeerIcon (u1\<lparr>m_info := Some i2\<rparr>) (d_flagIcon d)
                                   (d_iconHash d)
          in ((updatedFlag \<or> names \<or> addrs, u2), iconSignal))"

subsection \<open>PeersList\<close>

datatype PeersList_signal =
  peerAdded string | peerUpdated string | peerExpired string | duplicatedNameDetected string

text \<open>
  The peers list: the hash table of the instances (an association list with one entry
  per key), the information of the local user, the content of the file \<open>peers.json\<close>
  (\<open>None\<close> when it is absent or not an array) and the signals emitted so far.
\<close>

record PeersList =
  m_instances :: "(string \<times> PeerUser) list"
  m_localUser :: UserInfo
  peers_json :: "QJsonObject list option"
  signals :: "PeersList_signal list"

definition hash_insert :: "string \<Rightarrow> 'v \<Rightarrow> (string \<times> 'v) list \<Rightarrow> (string \<times> 'v) list" where
  "hash_insert k v xs = (k, v) # filter (\<lambda>e. fst e \<noteq> k) xs"

definition peer_uuid :: "PeerUser \<Rightarrow> string" where
  "peer_uuid u = (case m_info u of None \<Rightarrow> [] | Some i \<Rightarrow> m_uuid i)"

definition addPeerToList :: "PeerUser \<Rightarrow> (string \<times> PeerUser) list \<Rightarrow> (string \<times> PeerUser) list" where
  "addPeerToList instance xs = hash_insert (peer_uuid instance) instance xs"

text \<open>
  The constructor \<open>PeersList::PeersList(confPath, localUser)\<close>: the records of the file
  are read in order; \<open>ages\<close> gives the uninitialised age of each new object.
\<close>

fun load_peers ::
    "(string \<Rightarrow> string \<Rightarrow> QByteArray option) \<Rightarrow> string \<Rightarrow>
     (QJsonObject \<times> quint8) list \<Rightarrow> (string \<times> PeerUser) list \<Rightarrow> (string \<times> PeerUser) list" where
  "load_peers icons me [] acc = acc"
| "load_peers icons me ((obj, age0) # rest) acc =
     (let peer = PeerUser_fromJson age0 icons obj
      in load_peers icons me rest
           (if u_valid peer \<and> peer_uuid peer \<noteq> me then addPeerToList peer acc else acc))"

definition PeersList_new ::
    "(string \<Rightarrow> string \<Rightarrow> QByteArray option) \<Rightarrow> (nat \<Rightarrow> quint8) \<Rightarrow>
     UserInfo \<Rightarrow> QJsonObject list option \<Rightarrow> PeersList" where
  "PeersList_new icons ages localUserInfo file =
     \<lparr>m_instances =
        (case file of
           None \<Rightarrow> []
         | Some peers \<Rightarrow>
             load_peers icons (m_uuid localUserInfo)
               (zip peers (map ages [0 ..< length peers])) []),
      m_localUser = localUserInfo, peers_json = file, signals = []\<rparr>"

definition emit_signals :: "PeersList_signal list \<Rightarrow> PeersList \<Rightarrow> PeersList" where
  "emit_signals es pl = pl\<lparr>signals := signals pl @ es\<rparr>"

definition same_names :: "UserInfo \<Rightarrow> PeerUser \<Rightarrow> bool" where
  "same_names me peer \<longleftrightarrow>
     (case m_info peer of
        None \<Rightarrow> False
      | Some i \<Rightarrow> m_firstName me = m_firstName i \<and> m_lastName me = m_lastName i)"

text \<open>
  \<open>PeersList::update(datagram)\<close>.  \<open>fresh\<close> is the identifier that
  \<open>LocalUser::resetUuid\<close> would draw.  A signal \<open>updatedIcon\<close> of a peer is forwarded as
  \<open>peerUpdated\<close> by the connection made in \<open>addPeerToList\<close>.
\<close>

definition PeersList_update :: "PeersList \<Rightarrow> SyfdDatagram \<Rightarrow> string \<Rightarrow> PeersList" where
  "PeersList_update pl datagram fresh =
     (let uuid = d_uuid datagram
      in if d_flagQuit datagram then
           (case map_of (m_instances pl) uuid of
              None \<Rightarrow> pl
            | Some peer \<Rightarrow>
                let (changed, peer') = PeerUser_setUnconfirmed peer
                in if changed
                   then emit_signals [peerExpired uuid]
                          (pl\<lparr>m_instances := hash_insert uuid peer' (m_instances pl)\<rparr>)
                   else pl)
         else
           (case map_of (m_instances pl) uuid of
              Some peer \<Rightarrow>
                let wasUnconfirmed = unconfirmed peer;
                    ((upd, peer'), iconSignal) = PeerUser_update peer datagram;
                    pl1 = emit_signals (if iconSignal then [peerUpdated uuid] else [])
                            (pl\<lparr>m_instances := hash_insert uuid peer' (m_instances pl)\<rparr>)
                in if upd
                   then emit_signals
                          ([if wasUnconfirmed then peerAdded uuid else peerUpdated uuid] @
                           (if same_names (m_localUser pl) peer'
                            then [duplicatedNameDetected uuid] else [])) pl1
                   else pl1
            | None \<Rightarrow>
                if m_uuid (m_localUser pl) = uuid
                then pl\<lparr>m_localUser := (m_localUser pl)\<lparr>m_uuid := fresh\<rparr>\<rparr>
                else let peer = PeerUser_fromDatagram datagram
                     in emit_signals
                          ([peerAdded uuid] @
                           (if same_names (m_localUser pl) peer
                            then [duplicatedNameDetected uuid] else []))
                          (pl\<lparr>m_instances := addPeerToList peer (m_instances pl)\<rparr>)))"

text \<open>
  \<open>PeersList::incrementAge()\<close>, run by the aging timer every \<open>AGING_INTERVAL\<close>
  milliseconds: every instance is aged, and \<open>peerExpired\<close> is emitted for each one whose
  \<open>incrementAge\<close> returns true.
\<close>

fun age_instances ::
    "(string \<times> PeerUser) list \<Rightarrow> (string \<times> PeerUser) list \<times> PeersList_signal list" where
  "age_instances [] = ([], [])"
| "age_instances ((k, peer) # rest) =
     (let (expired, peer') = PeerUser_incrementAge peer;
          (rest', es) = age_instances rest
      in ((k, peer') # rest', (if expired then [peerExpired (peer_uuid peer')] else []) @ es))"

definition PeersList_incrementAge :: "PeersList \<Rightarrow> PeersList" where
  "PeersList_incrementAge pl =
     (let (xs, es) = age_instances (m_instances pl)
      in emit_signals es (pl\<lparr>m_instances := xs\<rparr>))"

text \<open>
  The destructor \<open>PeersList::~PeersList()\<close> is the only caller of the \<open>saveToFile\<close>
  overload for lists of peers; \<open>ok\<close> tells whether the file could be written and
  committed.
\<close>

definition saveToFile :: "bool \<Rightarrow> (string \<times> PeerUser) list \<Rightarrow> QJsonObject list option \<Rightarrow>
    QJsonObject list option" where
  "saveToFile ok instances file = (if ok then Some (map (User_save \<circ> snd) instances) else file)"

definition PeersList_destroy :: "PeersList \<Rightarrow> bool \<Rightarrow> PeersList" where
  "PeersList_destroy pl ok = pl\<lparr>peers_json := saveToFile ok (m_instances pl) (peers_json pl)\<rparr>"

text \<open>
  The life of a peers list between construction and destruction: datagrams and ticks of
  the aging timer, in any order.
\<close>

datatype PeersList_event = Datagram SyfdDatagram string | AgingTick

fun PeersList_step :: "PeersList \<Rightarrow> PeersList_event \<Rightarrow> PeersList" where
  "PeersList_step pl (Datagram d fresh) = PeersList_update pl d fresh"
| "PeersList_step pl AgingTick = PeersList_incrementAge pl"

definition peer_id :: string where
  "peer_id = ''{6ba7b810-9dad-11d1-80b4-00c04fd430c8}''"

definition other_id :: string where
  "other_id = ''{6ba7b811-9dad-11d1-80b4-00c04fd430c8}''"

definition sample_datagram :: SyfdDatagram where
  "sample_datagram =
     \<lparr>d_valid = True, d_flagQuit = False, d_flagIcon = False, d_uuid = peer_id,
      d_firstName = ''Ada'', d_lastName = ''L'', d_ipv4Addr = 1, d_dataPort = 2,
      d_iconPort = 0, d_iconHash = []\<rparr>"

definition other_datagram :: SyfdDatagram where
  "other_datagram = sample_datagram\<lparr>d_uuid := other_id, d_firstName := ''Eve''\<rparr>"

definition sample_me :: UserInfo where
  "sample_me =
     \<lparr>m_uuid = ''{6ba7b812-9dad-11d1-80b4-00c04fd430c8}'', m_firstName = ''Bob'',
      m_lastName = ''M'', m_ipv4Address = 3, m_dataPort = 4, m_iconPort = 0, m_icon = None,
      m_preferences = None\<rparr>"

definition sample_peer_json :: QJsonObject where
  "sample_peer_json =
     [(''Me'', JBool False), (''UUID'', JString peer_id), (''First'', JString ''Ada''),
      (''Last'', JString ''L''), (''Icon'', JBool False), (''RP_UseDefaults'', JBool True)]"

definition sample_list :: PeersList where
  "sample_list = PeersList_new (\<lambda>u h. None) (\<lambda>n. 0) sample_me (Some [sample_peer_json])"

definition empty_list :: PeersList where
  "empty_list = PeersList_new (\<lambda>u h. None) (\<lambda>n. 0) sample_me (Some [])"

section \<open>The discovery protocol (syfdprotocol.cpp)\<close>

datatype OperationalMode = Online | Offline

datatype SyfdProtocol_Status = Started | Stopped

datatype SyfdProtocol_signal = modeChanged OperationalMode | error

definition ERROR_THRESHOLD :: int where
  "ERROR_THRESHOLD = 3"

definition SYDF_INTERVAL :: nat where
  "SYDF_INTERVAL = 5000"

text \<open>
  The members of \<open>SyfdProtocol\<close> that the sending path reads or writes: the status
  (\<open>syfd_status\<close> is \<open>m_status\<close>), the mode, whether the timer is active, whether the
  stored datagram is valid, the buffered datagram, the error count, and the signals
  emitted so far.
\<close>

record SyfdProtocol =
  syfd_status :: SyfdProtocol_Status
  m_mode :: OperationalMode
  m_timer_active :: bool
  m_datagram_valid :: bool
  m_datagramBuffer :: QByteArray
  m_errorCount :: int
  emitted :: "SyfdProtocol_signal list"

definition emit :: "SyfdProtocol_signal \<Rightarrow> SyfdProtocol \<Rightarrow> SyfdProtocol" where
  "emit e s = s\<lparr>emitted := emitted s @ [e]\<rparr>"

text \<open>
  \<open>sendDatagram\<close>, \<open>setMode\<close> and \<open>sendQuitDatagram\<close> call each other.  \<open>ok\<close> tells
  whether \<open>writeDatagram\<close> reports the whole datagram as written; one call chain writes
  at most once, because \<open>sendQuitDatagram\<close> does not send once the threshold is reached.
\<close>

function sendDatagram :: "SyfdProtocol \<Rightarrow> bool \<Rightarrow> SyfdProtocol"
  and setMode :: "SyfdProtocol \<Rightarrow> OperationalMode \<Rightarrow> bool \<Rightarrow> bool \<Rightarrow> SyfdProtocol"
  and sendQuitDatagram :: "SyfdProtocol \<Rightarrow> bool \<Rightarrow> SyfdProtocol"
where
  "sendDatagram s ok =
     (if \<not> ok
      then (if m_errorCount s + 1 = ERROR_THRESHOLD
            then emit error (setMode (s\<lparr>m_errorCount := m_errorCount s + 1\<rparr>) Offline True ok)
            else s\<lparr>m_errorCount := m_errorCount s + 1\<rparr>)
      else s\<lparr>m_errorCount := 0\<rparr>)"
| "setMode s mode emitSignal ok =
     (if m_mode s = mode then s
      else if mode = Online
      then (if m_datagramBuffer s = [] then emit (modeChanged Offline) s
            else (if emitSignal then emit (modeChanged mode) else id)
                   (s\<lparr>m_timer_active := True, m_errorCount := 0, m_mode := mode\<rparr>))
      else (if emitSignal then emit (modeChanged mode) else id)
             ((sendQuitDatagram s ok)\<lparr>m_timer_active := False, m_errorCount := 0,
                                         m_mode := mode\<rparr>))"
| "sendQuitDatagram s ok =
     (if m_datagram_valid s \<and> m_errorCount s < ERROR_THRESHOLD then sendDatagram s ok
      else s)"
  by pat_completeness auto
termination
  by (relation "measure (\<lambda>x. case x of
          Inl (s, ok) \<Rightarrow> (if m_errorCount s < ERROR_THRESHOLD then 3 else 0)
        | Inr (Inl (s, mode, e, ok)) \<Rightarrow> (if m_errorCount s < ERROR_THRESHOLD then 3 else 0) + 2
        | Inr (Inr (s, ok)) \<Rightarrow> (if m_errorCount s < ERROR_THRESHOLD then 3 else 0) + 1)")
     (auto simp: ERROR_THRESHOLD_def)

definition sendBufferedDatagram :: "SyfdProtocol \<Rightarrow> bool \<Rightarrow> SyfdProtocol" where
  "sendBufferedDatagram s ok =
     (if m_datagramBuffer s \<noteq> [] then sendDatagram s ok else setMode s Offline True ok)"

text \<open>
  A tick of the sending timer, which runs every \<open>SYDF_INTERVAL\<close> milliseconds while it
  is active, and a run of ticks with the outcomes of their socket writes.
\<close>

definition timer_tick :: "SyfdProtocol \<Rightarrow> bool \<Rightarrow> SyfdProtocol" where
  "timer_tick s ok = (if m_timer_active s then sendBufferedDatagram s ok else s)"

text \<open>
  The claim's reading of a run of send attempts, written independently of the code: the
  count of consecutive failures so far, which a success resets and the third failure in a
  row ends (\<open>None\<close>).  \<open>three_failures\<close> tells whether a list of outcomes contains three
  failures in a row, and \<open>trailing_failures\<close> counts the failures at its end.
\<close>

fun failures_run :: "nat \<Rightarrow> bool list \<Rightarrow> nat option" where
  "failures_run c [] = Some c"
| "failures_run c (ok # rest) =
     (if ok then failures_run 0 rest
      else if Suc c = 3 then None
      else failures_run (Suc c) rest)"

fun three_failures :: "bool list \<Rightarrow> bool" where
  "three_failures (a # b # c # rest) =
     ((\<not> a \<and> \<not> b \<and> \<not> c) \<or> three_failures (b # c # rest))"
| "three_failures _ = False"

definition trailing_failures :: "bool list \<Rightarrow> nat" where
  "trailing_failures rs = length (takeWhile (\<lambda>ok. \<not> ok) (rev rs))"

definition gone_offline :: "SyfdProtocol \<Rightarrow> SyfdProtocol" where
  "gone_offline s =
     s\<lparr>m_timer_active := False, m_errorCount := 0, m_mode := Offline,
       emitted := emitted s @ [modeChanged Offline, error]\<rparr>"

definition sending :: "SyfdProtocol \<Rightarrow> bool" where
  "sending s \<longleftrightarrow> m_mode s = Online \<and> m_timer_active s \<and> m_datagramBuffer s \<noteq> []"

definition sample_protocol :: SyfdProtocol where
  "sample_protocol =
     \<lparr>syfd_status = Started, m_mode = Online, m_timer_active = True, m_datagram_valid = True,
      m_datagramBuffer = [83, 89, 70, 68], m_errorCount = 0, emitted = []\<rparr>"


section \<open>The file transfer protocol, common part (syfftprotocolcommon.cpp)\<close>

datatype Status =
  S_New | S_Connecting | S_Connected | S_InTransfer | S_TransferCompleted | S_Closing |
  S_Closed | S_Aborted | S_PausedByUser | S_PausedByPeer

datatype Command =
  ABORT | CLOSE | HELLO | ACK | SHARE | ITEM | START | SKIP | CHUNK | ACCEPT | REJECT |
  COMMIT | ROLLBK | STOP | PAUSE

fun Command_code :: "Command \<Rightarrow> byte" where
  "Command_code ABORT = 0x00"
| "Command_code CLOSE = 0x01"
| "Command_code HELLO = 0x02"
| "Command_code ACK = 0x03"
| "Command_code SHARE = 0x10"
| "Command_code ITEM = 0x11"
| "Command_code START = 0x12"
| "Command_code SKIP = 0x13"
| "Command_code CHUNK = 0x14"
| "Command_code ACCEPT = 0x20"
| "Command_code REJECT = 0x21"
| "Command_code COMMIT = 0x22"
| "Command_code ROLLBK = 0x23"
| "Command_code STOP = 0x24"
| "Command_code PAUSE = 0x30"

definition Command_of :: "byte \<Rightarrow> Command option" where
  "Command_of b =
     find (\<lambda>c. Command_code c = b)
       [ABORT, CLOSE, HELLO, ACK, SHARE, ITEM, START, SKIP, CHUNK, ACCEPT, REJECT, COMMIT,
        ROLLBK, STOP, PAUSE]"

definition MAX_MSG_LEN :: nat where
  "MAX_MSG_LEN = 500"

definition UUID_LEN :: nat where
  "UUID_LEN = 16"

definition INT_MAX :: quint32 where
  "INT_MAX = 0x7FFFFFFF"

text \<open>
  \<open>TransferInfo\<close> (transferinfo.hpp) without its clocks and speeds; \<open>ti_fileInTransfer\<close>
  is its member \<open>m_fileInTransfer\<close>.
\<close>

record TransferInfo =
  m_totalFiles :: quint32
  m_transferredFiles :: quint32
  m_skippedFiles :: quint32
  m_totalBytes :: quint64
  m_transferredBytes :: quint64
  m_skippedBytes :: quint64
  ti_fileInTransfer :: string

definition TransferInfo_new :: TransferInfo where
  "TransferInfo_new =
     \<lparr>m_totalFiles = 0, m_transferredFiles = 0, m_skippedFiles = 0, m_totalBytes = 0,
      m_transferredBytes = 0, m_skippedBytes = 0, ti_fileInTransfer = []\<rparr>"

definition remainingFiles :: "TransferInfo \<Rightarrow> quint32" where
  "remainingFiles t = m_totalFiles t - m_transferredFiles t - m_skippedFiles t"

definition remainingBytes :: "TransferInfo \<Rightarrow> quint64" where
  "remainingBytes t = m_totalBytes t - m_transferredBytes t - m_skippedBytes t"

datatype DuplicatedFileAction = DF_Replace | DF_Keep | DF_KeepBoth | DF_Ask

datatype SocketState = UnconnectedState | ConnectedState | ClosingState

datatype Signal =
  statusChanged Status | connected | transferCompleted | closed | aborted |
  sharingRequested | duplicatedFileDetected

text \<open>
  The state of a receiver: the members of \<open>SyfftProtocolCommon\<close> and of
  \<open>SyfftProtocolReceiver\<close> (\<open>r_status\<close> is \<open>m_status\<close>, and the peer identifier is
  \<open>None\<close> while it is \<open>UNKNOWN_UUID\<close>), the socket with the bytes received and not
  yet consumed (\<open>rx\<close>) and the bytes sent (\<open>tx\<close>), and the signals emitted.  Paths are
  kept relative to the base path, which is therefore left out.
\<close>

record Receiver =
  r_status :: Status
  m_oldStatusStack :: "Status list"
  m_preventUserTogglePause :: bool
  m_localUuid :: QByteArray
  m_peerUuid :: "QByteArray option"
  m_transferInfo :: TransferInfo
  m_files :: "FileInfo list"
  m_currentFile :: quint32
  m_fileInTransfer :: "FileInTransferWriter option"
  m_defaultDFAction :: DuplicatedFileAction
  m_shareMsg :: "string option"
  socket_state :: SocketState
  rx :: "byte list"
  tx :: "byte list"
  r_signals :: "Signal list"

text \<open>
  What the operating system, the uninitialised memory and the user interface answer
  while one event is handled: whether a relative path exists under the base path, whether
  its directory can be created and the file opened for writing, what a write of a buffer
  returns, whether a commit succeeds, whether a raw write to the socket is complete,
  whether the base path chosen by the user is usable, the content of the
  uninitialised members of a default \<open>FileInfo\<close>, and how the default locale prints a
  number.
\<close>

record Env =
  fs_exists :: "string \<Rightarrow> bool"
  fs_mkpath :: "string \<Rightarrow> bool"
  fs_open :: "string \<Rightarrow> bool"
  write_result :: "QByteArray \<Rightarrow> int"
  commit_ok :: bool
  socket_write_ok :: bool
  base_path_ok :: bool
  uninit_size :: quint64
  uninit_status :: FileInfo_Status
  locale_toString :: "nat \<Rightarrow> string"

definition Receiver_new :: "QByteArray \<Rightarrow> Receiver" where
  "Receiver_new localUuid =
     \<lparr>r_status = S_New, m_oldStatusStack = [], m_preventUserTogglePause = False,
      m_localUuid = localUuid, m_peerUuid = None, m_transferInfo = TransferInfo_new,
      m_files = [], m_currentFile = 0xFFFFFFFF, m_fileInTransfer = None,
      m_defaultDFAction = DF_Ask, m_shareMsg = None, socket_state = ConnectedState,
      rx = [], tx = [], r_signals = []\<rparr>"

definition emitS :: "Signal list \<Rightarrow> Receiver \<Rightarrow> Receiver" where
  "emitS es s = s\<lparr>r_signals := r_signals s @ es\<rparr>"

definition send :: "byte list \<Rightarrow> Receiver \<Rightarrow> Receiver" where
  "send bs s = s\<lparr>tx := tx s @ bs\<rparr>"

definition sendCommand :: "Command \<Rightarrow> Receiver \<Rightarrow> Receiver" where
  "sendCommand c s = send [Command_code c] s"

definition setFileStatus :: "FileInfo_Status \<Rightarrow> Receiver \<Rightarrow> Receiver" where
  "setFileStatus st s =
     s\<lparr>m_files := (m_files s)[unat (m_currentFile s) :=
          (m_files s ! unat (m_currentFile s))\<lparr>m_status := st\<rparr>]\<rparr>"

definition currentFileInfo :: "Receiver \<Rightarrow> FileInfo" where
  "currentFileInfo s = m_files s ! unat (m_currentFile s)"

text \<open>
  \<open>closeConnection\<close>.  When the socket is already unconnected the signal
  \<open>disconnected\<close> is re-triggered, whose handler moves a closing connection to
  \<open>Closed\<close>.
\<close>

definition socket_disconnected :: "Receiver \<Rightarrow> Receiver" where
  "socket_disconnected s =
     (if r_status s = S_Closing
      then emitS [statusChanged S_Closed, closed] (s\<lparr>r_status := S_Closed\<rparr>)
      else s)"

definition closeConnection :: "Receiver \<Rightarrow> Receiver" where
  "closeConnection s =
     (if r_status s = S_New \<or> r_status s = S_Closing \<or> r_status s = S_Closed \<or>
         r_status s = S_Aborted then s
      else let s1 = emitS [statusChanged S_Closing] (s\<lparr>r_status := S_Closing\<rparr>)
           in if socket_state s1 = UnconnectedState then socket_disconnected s1
              else (if socket_state s1 = ConnectedState then sendCommand CLOSE s1 else s1)
                     \<lparr>socket_state := ClosingState\<rparr>)"

text \<open>
  \<open>abortConnection\<close> and \<open>manageError\<close>.
\<close>

definition abortConnection :: "Receiver \<Rightarrow> Receiver" where
  "abortConnection s =
     (if r_status s = S_New \<or> r_status s = S_Closed \<or> r_status s = S_Aborted then s
      else let t = m_transferInfo s;
               t1 = t\<lparr>ti_fileInTransfer := [],
                       m_skippedFiles := m_skippedFiles t + remainingFiles t\<rparr>;
               t2 = t1\<lparr>m_skippedBytes := m_skippedBytes t1 + remainingBytes t1\<rparr>;
               s1 = s\<lparr>r_status := S_Aborted, m_transferInfo := t2\<rparr>;
               s2 = (if m_currentFile s1 < m_totalFiles t2 then setFileStatus TransferFailed s1
                     else s1);
               s3 = s2\<lparr>m_fileInTransfer := None\<rparr>;
               s4 = (if socket_state s3 = ConnectedState then sendCommand ABORT s3 else s3)
           in emitS [statusChanged S_Aborted, aborted]
                (s4\<lparr>socket_state := UnconnectedState, rx := []\<rparr>))"

definition manageError :: "Receiver \<Rightarrow> Receiver" where
  "manageError s = abortConnection s"

text \<open>
  \<open>togglePauseMode\<close>; the top of the stack of old statuses is the head of the list.
\<close>

definition togglePauseMode :: "bool \<Rightarrow> Receiver \<Rightarrow> Receiver" where
  "togglePauseMode userRequested s =
     (if r_status s = S_New \<or> r_status s = S_Aborted \<or> r_status s = S_Closing \<or>
         r_status s = S_Closed then s
      else if userRequested \<and> m_preventUserTogglePause s then s
      else let pauseStatus = (if userRequested then S_PausedByUser else S_PausedByPeer);
               s1 = (if userRequested \<and> socket_state s = ConnectedState
                     then sendCommand PAUSE s else s)
           in if r_status s1 = pauseStatus
              then (case m_oldStatusStack s1 of
                      [] \<Rightarrow> s1
                    | oldStatus # stack \<Rightarrow>
                        emitS [statusChanged oldStatus]
                          (s1\<lparr>m_oldStatusStack := stack, r_status := oldStatus\<rparr>))
              else emitS [statusChanged pauseStatus]
                     (s1\<lparr>m_oldStatusStack := r_status s1 # m_oldStatusStack s1,
                         r_status := pauseStatus\<rparr>))"

text \<open>
  \<open>moveToNextFile\<close>, with its return value.
\<close>

definition moveToNextFile :: "Receiver \<Rightarrow> bool \<times> Receiver" where
  "moveToNextFile s =
     (let s1 = s\<lparr>m_currentFile := m_currentFile s + 1\<rparr>
      in if m_currentFile s1 = m_totalFiles (m_transferInfo s1)
         then (False,
               closeConnection
                 (emitS [statusChanged S_TransferCompleted, transferCompleted]
                    (s1\<lparr>m_transferInfo := (m_transferInfo s1)\<lparr>ti_fileInTransfer := []\<rparr>,
                        r_status := S_TransferCompleted\<rparr>)))
         else (True,
               s1\<lparr>m_transferInfo := (m_transferInfo s1)
                     \<lparr>ti_fileInTransfer := m_filePath (currentFileInfo s1)\<rparr>\<rparr>))"

section \<open>The receiver (syfftprotocolreceiver.cpp)\<close>

text \<open>
  \<open>acceptFileTransfer\<close> and \<open>rejectFileTransfer\<close>.
\<close>

definition acceptFileTransfer :: "Receiver \<Rightarrow> Receiver" where
  "acceptFileTransfer s = setFileStatus InTransfer (sendCommand ACCEPT s)"

definition rejectFileTransfer :: "Receiver \<Rightarrow> Receiver" where
  "rejectFileTransfer s =
     (let s1 = setFileStatus TransferRejected ((sendCommand REJECT s)\<lparr>m_fileInTransfer := None\<rparr>);
          t = m_transferInfo s1;
          s2 = s1\<lparr>m_transferInfo :=
                    t\<lparr>m_skippedFiles := m_skippedFiles t + 1,
                      m_skippedBytes := m_skippedBytes t + m_size (currentFileInfo s1)\<rparr>\<rparr>
      in snd (moveToNextFile s2))"

text \<open>
  The writer that \<open>FileInTransferWriter(m_basePath, fileInfo)\<close> builds in the given
  environment.
\<close>

definition openWriter :: "Env \<Rightarrow> FileInfo \<Rightarrow> FileInTransferWriter" where
  "openWriter env fileInfo =
     FileInTransferWriter_new fileInfo (fs_exists env (m_filePath fileInfo))
       (fs_mkpath env (m_path fileInfo)) (fs_open env (m_filePath fileInfo))"

text \<open>
  \<open>QString::arg\<close>.  A place marker is \<open>%\<close>, an optional \<open>L\<close> and one or two
  digits; \<open>arg\<close> replaces every marker with the lowest number in the string, by the
  argument or, for a marker with \<open>L\<close>, by its localised form, and leaves a string
  without markers as it is.  The scan is that of \<open>findArgEscapes\<close> and
  \<open>replaceArgEscapes\<close> of Qt: after a \<open>%\<close> that starts no marker it goes on with the
  next character.  Digits are the ASCII ones; which other characters Qt takes for digits
  depends on its Unicode tables.
\<close>

definition digitValue :: "char \<Rightarrow> nat option" where
  "digitValue c =
     (if 48 \<le> (of_char c :: nat) \<and> (of_char c :: nat) \<le> 57 then Some (of_char c - 48)
      else None)"

datatype arg_token = Lit char | Marker bool nat string

text \<open>
  The marker that the text after a \<open>%\<close> starts, if any: whether it has \<open>L\<close>, its
  number, its text, and what follows it.
\<close>

definition take_marker :: "string \<Rightarrow> (bool \<times> nat \<times> string \<times> string) option" where
  "take_marker cs =
     (let loc = (cs \<noteq> [] \<and> hd cs = CHR ''L'');
          ds = (if loc then tl cs else cs);
          pre = (if loc then ''%L'' else ''%'')
      in case ds of
           [] \<Rightarrow> None
         | d1 # r1 \<Rightarrow>
             (case digitValue d1 of
                None \<Rightarrow> None
              | Some v1 \<Rightarrow>
                  (case r1 of
                     [] \<Rightarrow> Some (loc, v1, pre @ [d1], [])
                   | d2 # r2 \<Rightarrow>
                       (case digitValue d2 of
                          None \<Rightarrow> Some (loc, v1, pre @ [d1], r1)
                        | Some v2 \<Rightarrow> Some (loc, 10 * v1 + v2, pre @ [d1, d2], r2)))))"

lemma take_marker_shorter:
  "take_marker cs = Some (loc, n, text, rest) \<Longrightarrow> length rest < length cs"
  by (cases cs)
     (auto simp: take_marker_def Let_def split: list.splits option.splits if_splits)

function arg_tokens :: "string \<Rightarrow> arg_token list" where
  "arg_tokens [] = []"
| "arg_tokens (c # cs) =
     (if c = CHR ''%''
      then (case take_marker cs of
              Some (loc, n, text, rest) \<Rightarrow> Marker loc n text # arg_tokens rest
            | None \<Rightarrow> Lit c # arg_tokens cs)
      else Lit c # arg_tokens cs)"
  by pat_completeness auto
termination
  by (relation "measure length") (auto dest: take_marker_shorter)

declare arg_tokens.simps [simp del]

fun marker_numbers :: "arg_token list \<Rightarrow> nat list" where
  "marker_numbers [] = []"
| "marker_numbers (Lit c # ts) = marker_numbers ts"
| "marker_numbers (Marker loc n text # ts) = n # marker_numbers ts"

fun replace_token :: "nat \<Rightarrow> string \<Rightarrow> string \<Rightarrow> arg_token \<Rightarrow> string" where
  "replace_token m a la (Lit c) = [c]"
| "replace_token m a la (Marker loc n text) = (if n = m then (if loc then la else a) else text)"

fun token_text :: "arg_token \<Rightarrow> string" where
  "token_text (Lit c) = [c]"
| "token_text (Marker loc n text) = text"

definition QString_arg :: "string \<Rightarrow> string \<Rightarrow> string \<Rightarrow> string" where
  "QString_arg s a la =
     (case marker_numbers (arg_tokens s) of
        [] \<Rightarrow> s
      | n # ns \<Rightarrow> concat (map (replace_token (fold min ns n) a la) (arg_tokens s)))"

text \<open>
  The names tried by \<open>performDFAction\<close> for \<open>KeepBoth\<close>.  A string argument is its
  own localised form; the counter is passed to \<open>arg(int)\<close>, which prints it in decimal
  (\<open>decimal\<close> prints a number below 1000) and, for a marker with \<open>L\<close>, as the default
  locale does.
\<close>

definition digit :: "nat \<Rightarrow> char" where
  "digit n = char_of (48 + n)"

definition decimal :: "nat \<Rightarrow> string" where
  "decimal n =
     (if n < 10 then [digit n]
      else if n < 100 then [digit (n div 10), digit (n mod 10)]
      else [digit (n div 100), digit ((n div 10) mod 10), digit (n mod 10)])"

definition arg_string :: "string \<Rightarrow> string \<Rightarrow> string" where
  "arg_string s a = QString_arg s a a"

definition arg_int :: "Env \<Rightarrow> string \<Rightarrow> nat \<Rightarrow> string" where
  "arg_int env s n = QString_arg s (decimal n) (locale_toString env n)"

definition newPath :: "Env \<Rightarrow> string \<Rightarrow> string \<Rightarrow> string \<Rightarrow> quint8 \<Rightarrow> string" where
  "newPath env path name ext counter =
     (if name = []
      then arg_int env (arg_string (arg_string ''%1/.%2_%3'' path) ext) (unat counter)
      else if ext = []
      then arg_int env (arg_string (arg_string ''%1/%2_%3'' path) name) (unat counter)
      else arg_string
             (arg_int env (arg_string (arg_string ''%1/%2_%3.%4'' path) name) (unat counter))
             ext)"

definition newFile :: "Env \<Rightarrow> FileInfo \<Rightarrow> quint8 \<Rightarrow> FileInfo" where
  "newFile env currentFile counter =
     FileInfo_new
       (cleanPath (newPath env (m_path currentFile) (baseName (m_name currentFile))
                     (completeSuffix (m_name currentFile)) counter))
       (m_size currentFile) (m_lastModified currentFile)"

text \<open>
  The loop of \<open>performDFAction\<close>: the counter is a \<open>quint8\<close> that starts at 1 and ends
  the loop when it wraps to 0.  The result is the descriptor and the writer of the name
  under which the file is accepted, or \<open>None\<close> when the loop is left without one.
\<close>

function keepBoth_loop ::
    "Env \<Rightarrow> FileInfo \<Rightarrow> quint8 \<Rightarrow> (FileInfo \<times> FileInTransferWriter) option" where
  "keepBoth_loop env currentFile counter =
     (if counter = 0 then None
      else let newFileWriter = openWriter env (newFile env currentFile counter)
           in if m_error newFileWriter then None
              else if \<not> m_exists newFileWriter
              then Some (newFile env currentFile counter, newFileWriter)
              else keepBoth_loop env currentFile (counter + 1))"
  by pat_completeness auto
termination
proof (relation "measure (\<lambda>(env, currentFile, counter). if counter = 0 then 0 else 256 - unat counter)")
  show "wf (measure (\<lambda>(env :: Env, currentFile :: FileInfo, counter :: quint8).
          if counter = 0 then 0 else 256 - unat counter))"
    by simp
next
  fix env :: Env and currentFile :: FileInfo and counter :: quint8 and w
  assume "counter \<noteq> 0"
  then have "unat counter \<noteq> 0" by (simp add: unat_eq_0)
  moreover have "unat counter < 256" using unsigned_less [of counter, where 'a = nat] by simp
  ultimately have "(if counter + 1 = 0 then 0 else 256 - unat (counter + 1)) < 256 - unat counter"
    using unatSuc [of counter] by (auto simp: add.commute)
  then show "((env, currentFile, counter + 1), env, currentFile, counter)
      \<in> measure (\<lambda>(env, currentFile, counter). if counter = 0 then 0 else 256 - unat counter)"
    using \<open>counter \<noteq> 0\<close> by simp
qed

declare keepBoth_loop.simps [simp del]

definition performDFAction :: "Env \<Rightarrow> DuplicatedFileAction \<Rightarrow> Receiver \<Rightarrow> Receiver" where
  "performDFAction env action s =
     (if action = DF_Replace then acceptFileTransfer s
      else if action = DF_Keep then rejectFileTransfer s
      else (case keepBoth_loop env (currentFileInfo s) 1 of
              Some (file, writer) \<Rightarrow>
                acceptFileTransfer
                  (s\<lparr>m_files := (m_files s)[unat (m_currentFile s) := file],
                     m_fileInTransfer := Some writer\<rparr>)
            | None \<Rightarrow> rejectFileTransfer s))"

text \<open>
  The slots run by the decisions of the user: \<open>acceptSharingRequest\<close>,
  \<open>rejectSharingRequest\<close>, and the handler of \<open>chosen(action, all)\<close> that
  \<open>startCommand\<close> connects to a duplicated-file request.  A request that nobody
  answers is rejected, or answered with \<open>Keep\<close>, by its destructor, which is a
  decision like the others.
\<close>

definition acceptSharingRequest :: "Env \<Rightarrow> string \<Rightarrow> Receiver \<Rightarrow> Receiver" where
  "acceptSharingRequest env message s =
     (let s1 = togglePauseMode True (s\<lparr>m_preventUserTogglePause := False\<rparr>)
      in if r_status s1 = S_Aborted then s1
         else if \<not> base_path_ok env then manageError s1
         else let s2 = send (Command_code ACCEPT #
                              write_QByteArray (toUtf8 (take MAX_MSG_LEN message))) s1;
                  s3 = emitS [statusChanged S_InTransfer] (s2\<lparr>r_status := S_InTransfer\<rparr>)
              in snd (moveToNextFile s3))"

definition rejectSharingRequest :: "string \<Rightarrow> Receiver \<Rightarrow> Receiver" where
  "rejectSharingRequest message s =
     (let s1 = togglePauseMode True (s\<lparr>m_preventUserTogglePause := False\<rparr>)
      in if r_status s1 = S_Aborted then s1
         else let s2 = send (Command_code REJECT #
                              write_QByteArray (toUtf8 (take MAX_MSG_LEN message))) s1;
                  t = m_transferInfo s2
              in closeConnection
                   (s2\<lparr>m_transferInfo := t\<lparr>m_skippedFiles := m_totalFiles t,
                                             m_skippedBytes := m_totalBytes t\<rparr>\<rparr>))"

definition duplicatedFile_chosen ::
    "Env \<Rightarrow> DuplicatedFileAction \<Rightarrow> bool \<Rightarrow> Receiver \<Rightarrow> Receiver" where
  "duplicatedFile_chosen env action all s =
     (let s1 = togglePauseMode True (s\<lparr>m_preventUserTogglePause := False\<rparr>)
      in if r_status s1 = S_Aborted then s1
         else performDFAction env action
                (if all then s1\<lparr>m_defaultDFAction := action\<rparr> else s1))"

text \<open>
  The handlers of the commands.  Each one gets the stream positioned after the command
  byte, inside a transaction, and returns its return value, the new state and the stream;
  \<open>None\<close> in place of the stream means that the transaction was rolled back, so that
  the command will be read again when more data has arrived.
\<close>

type_synonym handler_result = "bool \<times> Receiver \<times> QDataStream option"

definition helloCommand :: "Env \<Rightarrow> Receiver \<Rightarrow> QDataStream \<Rightarrow> handler_result" where
  "helloCommand env s st =
     (if r_status s \<noteq> S_Connecting \<or> m_peerUuid s \<noteq> None then (False, manageError s, Some st)
      else let (peerUuid, st1) = read_raw UUID_LEN st
           in if \<not> ds_ok st1 then (False, s, None)
              else let s1 = sendCommand HELLO (s\<lparr>m_peerUuid := Some peerUuid\<rparr>)
                   in if \<not> socket_write_ok env then (False, manageError s1, Some st1)
                      else (True, send (m_localUuid s1) s1, Some st1))"

definition ackCommand :: "Receiver \<Rightarrow> QDataStream \<Rightarrow> handler_result" where
  "ackCommand s st =
     (if r_status s \<noteq> S_Connecting \<or> m_peerUuid s = None then (False, manageError s, Some st)
      else (True, emitS [statusChanged S_Connected, connected] (s\<lparr>r_status := S_Connected\<rparr>),
            Some st))"

definition shareCommand :: "Receiver \<Rightarrow> QDataStream \<Rightarrow> handler_result" where
  "shareCommand s st =
     (if r_status s = S_Connected \<and> m_totalFiles (m_transferInfo s) = 0 \<and> m_shareMsg s = None
      then let (totalFiles, st1) = read_quint32 st;
               (totalBytes, st2) = read_quint64 st1;
               (message, st3) = read_QByteArray st2
           in if \<not> ds_ok st3 then (False, s, None)
              else if totalFiles \<ge> INT_MAX then (False, manageError s, Some st3)
              else (True,
                    s\<lparr>m_transferInfo := (m_transferInfo s)\<lparr>m_totalFiles := totalFiles,
                                                            m_totalBytes := totalBytes\<rparr>,
                      m_shareMsg := Some (take MAX_MSG_LEN (fromUtf8 message))\<rparr>,
                    Some st3)
      else if r_status s = S_Connected \<and>
              of_nat (length (m_files s)) = m_totalFiles (m_transferInfo s) \<and>
              m_shareMsg s \<noteq> None
      then if sum_list (map m_size (m_files s)) \<noteq> m_totalBytes (m_transferInfo s)
           then (False, manageError (s\<lparr>m_files := []\<rparr>), Some st)
           else let s1 = emitS [sharingRequested]
                           ((togglePauseMode True s)\<lparr>m_preventUserTogglePause := True\<rparr>)
                in (True, s1, Some st)
      else (False, manageError s, Some st))"

definition itemCommand :: "Env \<Rightarrow> Receiver \<Rightarrow> QDataStream \<Rightarrow> handler_result" where
  "itemCommand env s st =
     (if r_status s \<noteq> S_Connected \<or>
         of_nat (length (m_files s)) \<ge> m_totalFiles (m_transferInfo s)
      then (False, manageError s, Some st)
      else let (file, st1) = FileInfo_read st (FileInfo_default (uninit_size env) (uninit_status env))
           in if \<not> ds_ok st1 then (False, s, None)
              else if \<not> m_valid file then (False, manageError s, Some st1)
              else (True, s\<lparr>m_files := m_files s @ [file]\<rparr>, Some st1))"

definition startCommand :: "Env \<Rightarrow> Receiver \<Rightarrow> QDataStream \<Rightarrow> handler_result" where
  "startCommand env s st =
     (if r_status s \<noteq> S_InTransfer \<or> m_fileInTransfer s \<noteq> None
      then (False, manageError s, Some st)
      else let writer = openWriter env (currentFileInfo s);
               s1 = s\<lparr>m_fileInTransfer := Some writer\<rparr>
           in if m_error writer then (True, rejectFileTransfer s1, Some st)
              else if \<not> m_exists writer then (True, acceptFileTransfer s1, Some st)
              else if m_defaultDFAction s1 \<noteq> DF_Ask
              then (True, performDFAction env (m_defaultDFAction s1) s1, Some st)
              else let s2 = emitS [duplicatedFileDetected]
                              ((togglePauseMode True s1)\<lparr>m_preventUserTogglePause := True\<rparr>)
                   in (True, s2, Some st))"

definition skipCommand :: "Receiver \<Rightarrow> QDataStream \<Rightarrow> handler_result" where
  "skipCommand s st =
     (if r_status s \<noteq> S_InTransfer \<or> m_fileInTransfer s \<noteq> None
      then (False, manageError s, Some st)
      else let s1 = sendCommand REJECT s;
               t = m_transferInfo s1;
               s2 = s1\<lparr>m_transferInfo :=
                         t\<lparr>m_skippedFiles := m_skippedFiles t + 1,
                           m_skippedBytes := m_skippedBytes t + m_size (currentFileInfo s1)\<rparr>\<rparr>
           in (True, snd (moveToNextFile (setFileStatus TransferFailed s2)), Some st))"

definition chunkCommand :: "Env \<Rightarrow> Receiver \<Rightarrow> QDataStream \<Rightarrow> handler_result" where
  "chunkCommand env s st =
     (case m_fileInTransfer s of
        None \<Rightarrow> (False, manageError s, Some st)
      | Some writer \<Rightarrow>
          if r_status s \<noteq> S_InTransfer then (False, manageError s, Some st)
          else let (len, st1) = read_quint32 st
               in if \<not> ds_ok st1 then (False, s, None)
                  else if ucast len > MAX_CHUNK_SIZE then (False, manageError s, Some st1)
                  else let (buffer, st2) = read_raw (unat len) st1
                       in if \<not> ds_ok st2 then (False, s, None)
                          else let (ok, writer1) =
                                     Writer_processNextDataChunk writer buffer
                                       (write_result env buffer)
                               in if ok
                                  then (True,
                                        s\<lparr>m_fileInTransfer := Some writer1,
                                          m_transferInfo := (m_transferInfo s)
                                            \<lparr>m_transferredBytes :=
                                               m_transferredBytes (m_transferInfo s) + ucast len\<rparr>\<rparr>,
                                        Some st2)
                                  else if \<not> m_rollbacked writer1
                                  then (True,
                                        sendCommand STOP
                                          (s\<lparr>m_fileInTransfer := Some (snd (Writer_rollback writer1))\<rparr>),
                                        Some st2)
                                  else (True, s\<lparr>m_fileInTransfer := Some writer1\<rparr>, Some st2))"

definition commitCommand :: "Env \<Rightarrow> Receiver \<Rightarrow> QDataStream \<Rightarrow> handler_result" where
  "commitCommand env s st =
     (case m_fileInTransfer s of
        None \<Rightarrow> (False, manageError s, Some st)
      | Some writer \<Rightarrow>
          if r_status s \<noteq> S_InTransfer then (False, manageError s, Some st)
          else let (ok, writer1) = Writer_commit writer (commit_ok env)
               in if ok
                  then let s1 = setFileStatus Transferred (sendCommand COMMIT s);
                           t = m_transferInfo s1;
                           s2 = s1\<lparr>m_transferInfo :=
                                     t\<lparr>m_transferredFiles := m_transferredFiles t + 1\<rparr>\<rparr>
                       in (True, snd (moveToNextFile (s2\<lparr>m_fileInTransfer := None\<rparr>)), Some st)
                  else let writer2 = snd (Writer_rollback writer1);
                           s1 = setFileStatus TransferFailed (sendCommand ROLLBK s);
                           t = m_transferInfo s1;
                           s2 = s1\<lparr>m_transferInfo :=
                                     t\<lparr>m_skippedFiles := m_skippedFiles t + 1,
                                       m_skippedBytes := m_skippedBytes t +
                                                           m_remainingBytes writer2\<rparr>\<rparr>
                       in (True, snd (moveToNextFile (s2\<lparr>m_fileInTransfer := None\<rparr>)), Some st))"

definition rollbkCommand :: "Receiver \<Rightarrow> QDataStream \<Rightarrow> handler_result" where
  "rollbkCommand s st =
     (case m_fileInTransfer s of
        None \<Rightarrow> (False, manageError s, Some st)
      | Some writer \<Rightarrow>
          if r_status s \<noteq> S_InTransfer then (False, manageError s, Some st)
          else let writer1 = snd (Writer_rollback writer);
                   s1 = setFileStatus TransferFailed (sendCommand ROLLBK s);
                   t = m_transferInfo s1;
                   s2 = s1\<lparr>m_transferInfo :=
                             t\<lparr>m_skippedFiles := m_skippedFiles t + 1,
                               m_skippedBytes := m_skippedBytes t + m_remainingBytes writer1\<rparr>\<rparr>
               in (True, snd (moveToNextFile (s2\<lparr>m_fileInTransfer := None\<rparr>)), Some st))"

definition closeCommand :: "Receiver \<Rightarrow> QDataStream \<Rightarrow> handler_result" where
  "closeCommand s st =
     (if r_status s = S_Closed then (False, s, Some st)
      else if r_status s \<noteq> S_TransferCompleted \<and> r_status s \<noteq> S_Closing
      then (False, manageError s, Some st)
      else (True, closeConnection s, Some st))"

definition dispatch :: "Env \<Rightarrow> Receiver \<Rightarrow> byte \<Rightarrow> QDataStream \<Rightarrow> handler_result" where
  "dispatch env s command st =
     (case Command_of command of
        Some HELLO \<Rightarrow> helloCommand env s st
      | Some ACK \<Rightarrow> ackCommand s st
      | Some SHARE \<Rightarrow> shareCommand s st
      | Some ITEM \<Rightarrow> itemCommand env s st
      | Some START \<Rightarrow> startCommand env s st
      | Some SKIP \<Rightarrow> skipCommand s st
      | Some CHUNK \<Rightarrow> chunkCommand env s st
      | Some COMMIT \<Rightarrow> commitCommand env s st
      | Some ROLLBK \<Rightarrow> rollbkCommand s st
      | Some CLOSE \<Rightarrow> closeCommand s st
      | Some PAUSE \<Rightarrow> (True, togglePauseMode False s, Some st)
      | _ \<Rightarrow> (False, manageError s, Some st))"

subsection \<open>Reading the socket\<close>

text \<open>
  No handler gives back more bytes than it was given, which is what makes the loop of
  \<open>readData\<close> terminate.
\<close>

lemma read_raw_length:
  "read_raw n st = (x, st') \<Longrightarrow> length (ds_bytes st') \<le> length (ds_bytes st)"
  by (auto simp: read_raw_def split: if_splits)

lemma read_quint32_length:
  "read_quint32 st = (x, st') \<Longrightarrow> length (ds_bytes st') \<le> length (ds_bytes st)"
  by (auto simp: read_quint32_def split: prod.splits dest: read_raw_length)

lemma read_quint8_length:
  "read_quint8 st = (x, st') \<Longrightarrow> length (ds_bytes st') \<le> length (ds_bytes st)"
  by (auto simp: read_quint8_def split: prod.splits dest: read_raw_length)

lemma read_quint64_length:
  "read_quint64 st = (x, st') \<Longrightarrow> length (ds_bytes st') \<le> length (ds_bytes st)"
  by (auto simp: read_quint64_def split: prod.splits dest: read_raw_length)

lemma read_QDateTime_length:
  "read_QDateTime st = (x, st') \<Longrightarrow> length (ds_bytes st') \<le> length (ds_bytes st)"
  by (auto simp: read_QDateTime_def Let_def split: prod.splits
        dest!: read_quint64_length read_quint32_length read_quint8_length)

lemma read_QByteArray_length:
  "read_QByteArray st = (x, st') \<Longrightarrow> length (ds_bytes st') \<le> length (ds_bytes st)"
  by (auto simp: read_QByteArray_def Let_def split: prod.splits if_splits
        dest!: read_quint32_length read_raw_length)

lemma FileInfo_read_length:
  "FileInfo_read st f = (x, st') \<Longrightarrow> length (ds_bytes st') \<le> length (ds_bytes st)"
  by (auto simp: FileInfo_read_def Let_def split: prod.splits if_splits
        dest!: read_QByteArray_length read_quint64_length read_QDateTime_length)

lemma helloCommand_length:
  "helloCommand env s st = (cont, s', Some st') \<Longrightarrow> length (ds_bytes st') \<le> length (ds_bytes st)"
  by (auto simp: helloCommand_def Let_def split: prod.splits if_splits dest!: read_raw_length)

lemma shareCommand_length:
  "shareCommand s st = (cont, s', Some st') \<Longrightarrow> length (ds_bytes st') \<le> length (ds_bytes st)"
  by (auto simp: shareCommand_def Let_def split: prod.splits if_splits
        dest!: read_quint32_length read_quint64_length read_QByteArray_length)

lemma itemCommand_length:
  "itemCommand env s st = (cont, s', Some st') \<Longrightarrow> length (ds_bytes st') \<le> length (ds_bytes st)"
  by (auto simp: itemCommand_def Let_def split: prod.splits if_splits dest!: FileInfo_read_length)

lemma startCommand_length:
  "startCommand env s st = (cont, s', Some st') \<Longrightarrow> st' = st"
  by (auto simp: startCommand_def Let_def split: if_splits)

lemma chunkCommand_length:
  "chunkCommand env s st = (cont, s', Some st') \<Longrightarrow> length (ds_bytes st') \<le> length (ds_bytes st)"
  by (auto simp: chunkCommand_def Let_def split: option.splits prod.splits if_splits
        dest!: read_quint32_length read_raw_length)

lemma commitCommand_length:
  "commitCommand env s st = (cont, s', Some st') \<Longrightarrow> st' = st"
  by (auto simp: commitCommand_def Let_def split: option.splits prod.splits if_splits)

lemma other_commands_length:
  "ackCommand s st = (cont, s', Some st') \<Longrightarrow> st' = st"
  "skipCommand s st = (cont, s', Some st') \<Longrightarrow> st' = st"
  "rollbkCommand s st = (cont, s', Some st') \<Longrightarrow> st' = st"
  "closeCommand s st = (cont, s', Some st') \<Longrightarrow> st' = st"
  by (auto simp: ackCommand_def skipCommand_def rollbkCommand_def closeCommand_def Let_def
        split: option.splits if_splits)

lemma dispatch_length:
  "dispatch env s c st = (cont, s', Some st') \<Longrightarrow> length (ds_bytes st') \<le> length (ds_bytes st)"
  unfolding dispatch_def
  by (auto split: option.splits Command.splits
        dest: helloCommand_length shareCommand_length itemCommand_length startCommand_length
          chunkCommand_length commitCommand_length other_commands_length)

text \<open>
  The loop of \<open>readData\<close>: while a byte is available, a transaction is started, the
  command is read and its handler run.  A rolled-back transaction leaves the buffer as it
  was; \<open>abortConnection\<close> empties it.
\<close>

function readData_loop :: "Env \<Rightarrow> Receiver \<Rightarrow> Receiver" where
  "readData_loop env s =
     (case rx s of
        [] \<Rightarrow> s
      | command # rest \<Rightarrow>
          (case dispatch env s command \<lparr>ds_bytes = rest, ds_ok = True\<rparr> of
             (cont, s', None) \<Rightarrow> s'
           | (cont, s', Some st') \<Rightarrow>
               if r_status s' = S_Aborted then s'
               else if cont then readData_loop env (s'\<lparr>rx := ds_bytes st'\<rparr>)
               else s'\<lparr>rx := ds_bytes st'\<rparr>))"
  by pat_completeness auto
termination
  apply (relation "measure (\<lambda>(env, s). length (rx s))")
   apply simp
  apply (auto dest!: dispatch_length [OF sym])
  done

declare readData_loop.simps [simp del]

definition readData :: "Env \<Rightarrow> Receiver \<Rightarrow> Receiver" where
  "readData env s = (if r_status s = S_PausedByUser then s else readData_loop env s)"

subsection \<open>Events\<close>

text \<open>
  What can happen to a receiver: \<open>acceptConnection\<close> is run; bytes arrive on the socket
  (with no bytes, the event stands for the \<open>readyRead\<close> that leaving a pause posts); the
  user answers a sharing request or a duplicated-file request; the user asks to enter or
  to leave the pause; \<open>terminateConnection\<close> is called; the socket reports an error,
  which may be the peer closing the connection; the socket is disconnected.
\<close>

datatype Event =
  AcceptConnection
| ReadyRead "byte list"
| SharingAccepted string
| SharingRejected string
| DuplicatedFileChosen DuplicatedFileAction bool
| ChangePauseMode bool
| TerminateConnection
| SocketError bool
| SocketDisconnected

fun step :: "Receiver \<Rightarrow> Env \<times> Event \<Rightarrow> Receiver" where
  "step s (env, AcceptConnection) =
     (if r_status s = S_New
      then readData env (emitS [statusChanged S_Connecting] (s\<lparr>r_status := S_Connecting\<rparr>))
      else s)"
| "step s (env, ReadyRead bytes) =
     (if socket_state s = UnconnectedState then s
      else if r_status s = S_New then s\<lparr>rx := rx s @ bytes\<rparr>
      else readData env (s\<lparr>rx := rx s @ bytes\<rparr>))"
| "step s (env, SharingAccepted message) = acceptSharingRequest env message s"
| "step s (env, SharingRejected message) = rejectSharingRequest message s"
| "step s (env, DuplicatedFileChosen action all) = duplicatedFile_chosen env action all s"
| "step s (env, ChangePauseMode enterPauseMode) =
     (if (enterPauseMode \<and> r_status s = S_PausedByUser) \<or>
         (\<not> enterPauseMode \<and> r_status s \<noteq> S_PausedByUser) then s
      else togglePauseMode True s)"
| "step s (env, TerminateConnection) = abortConnection s"
| "step s (env, SocketError remoteHostClosed) =
     (if r_status s = S_PausedByUser \<and> remoteHostClosed
      then togglePauseMode True (s\<lparr>m_preventUserTogglePause := False\<rparr>)
      else if r_status s \<noteq> S_Aborted \<and> r_status s \<noteq> S_Closed then manageError s
      else s)"
| "step s (env, SocketDisconnected) = socket_disconnected (s\<lparr>socket_state := UnconnectedState\<rparr>)"

subsection \<open>The first free name, and sample states\<close>

text \<open>
  The claim's reading of \<open>KeepBoth\<close>, written independently of the loop: among the
  suffixes 1 to 255 in increasing order, the first whose candidate either cannot be
  opened or does not exist decides; the transfer is accepted under that candidate when it
  could be opened, and rejected otherwise or when there is no such suffix.
\<close>

definition stop_at :: "Env \<Rightarrow> FileInfo \<Rightarrow> nat \<Rightarrow> bool" where
  "stop_at env f k \<longleftrightarrow>
     m_error (openWriter env (newFile env f (of_nat k))) \<or>
     \<not> m_exists (openWriter env (newFile env f (of_nat k)))"

definition keepBoth_first :: "Env \<Rightarrow> FileInfo \<Rightarrow> nat list \<Rightarrow> (FileInfo \<times> FileInTransferWriter) option" where
  "keepBoth_first env f ks =
     (case find (stop_at env f) ks of
        None \<Rightarrow> None
      | Some k \<Rightarrow>
          if m_error (openWriter env (newFile env f (of_nat k))) then None
          else Some (newFile env f (of_nat k), openWriter env (newFile env f (of_nat k))))"

definition sample_env :: "(string \<Rightarrow> bool) \<Rightarrow> bool \<Rightarrow> Env" where
  "sample_env ex op =
     \<lparr>fs_exists = ex, fs_mkpath = (\<lambda>p. True), fs_open = (\<lambda>p. op),
      write_result = (\<lambda>b. int (length b)), commit_ok = True, socket_write_ok = True,
      base_path_ok = True, uninit_size = 0, uninit_status = Scheduled,
      locale_toString = decimal\<rparr>"

definition sample_writer :: FileInTransferWriter where
  "sample_writer = FileInTransferWriter_new (sample_file 10000) False True True"

definition sample_receiver :: Receiver where
  "sample_receiver =
     (Receiver_new [])\<lparr>r_status := S_InTransfer, m_peerUuid := Some [],
        m_transferInfo := TransferInfo_new\<lparr>m_totalFiles := 1, m_totalBytes := 10000\<rparr>,
        m_files := [(sample_file 10000)\<lparr>m_status := InTransfer\<rparr>], m_currentFile := 0,
        m_fileInTransfer := Some sample_writer, m_shareMsg := Some []\<rparr>"

text \<open>
  The candidate names of the claim: the suffix \<open>_k\<close> between the base name and the
  extension, after the base name when there is no extension, and after the dot and the
  name for a file whose base name is empty.
\<close>

definition candidate_name :: "string \<Rightarrow> string \<Rightarrow> string \<Rightarrow> nat \<Rightarrow> string" where
  "candidate_name path name ext k =
     (if name = [] then path @ ''/.'' @ ext @ ''_'' @ decimal k
      else if ext = [] then path @ ''/'' @ name @ ''_'' @ decimal k
      else path @ ''/'' @ name @ ''_'' @ decimal k @ ''.'' @ ext)"

subsection \<open>Admissible runs and the invariant of a receiver\<close>

text \<open>
  The user interface answers a request while the receiver is paused for it: the status is
  \<open>PausedByUser\<close>, the user is prevented from toggling the pause, and the status
  saved on top of the stack is the one in which the request was made.  A run is
  admissible when each decision in it arrives in such a state.
\<close>

definition awaiting :: "Receiver \<Rightarrow> Status \<Rightarrow> bool" where
  "awaiting s b \<longleftrightarrow>
     r_status s = S_PausedByUser \<and> m_preventUserTogglePause s \<and>
     (case m_oldStatusStack s of [] \<Rightarrow> False | x # xs \<Rightarrow> x = b)"

fun admissible :: "Receiver \<Rightarrow> Env \<times> Event \<Rightarrow> bool" where
  "admissible s (env, SharingAccepted message) = awaiting s S_Connected"
| "admissible s (env, SharingRejected message) = awaiting s S_Connected"
| "admissible s (env, DuplicatedFileChosen action all) =
     (awaiting s S_InTransfer \<and> action \<noteq> DF_Ask)"
| "admissible s (env, e) = True"

fun admissible_run :: "Receiver \<Rightarrow> (Env \<times> Event) list \<Rightarrow> bool" where
  "admissible_run s [] = True"
| "admissible_run s (e # es) = (admissible s e \<and> admissible_run (step s e) es)"

definition paused :: "Status \<Rightarrow> bool" where
  "paused r \<longleftrightarrow> r = S_PausedByUser \<or> r = S_PausedByPeer"

definition ended :: "Status \<Rightarrow> bool" where
  "ended r \<longleftrightarrow> r = S_Closing \<or> r = S_Closed \<or> r = S_Aborted"

text \<open>
  The status that a live receiver is in below its pauses, if the stack is well formed.
\<close>

fun base_of :: "Status \<Rightarrow> Status list \<Rightarrow> Status option" where
  "base_of r [] =
     (if r = S_New \<or> r = S_Connecting \<or> r = S_Connected \<or> r = S_InTransfer then Some r
      else None)"
| "base_of r (x # xs) = (if paused r then base_of x xs else None)"

definition final_status :: "FileInfo_Status \<Rightarrow> bool" where
  "final_status st \<longleftrightarrow> st = Transferred \<or> st = TransferRejected \<or> st = TransferFailed"

definition files_before :: "Receiver \<Rightarrow> nat" where
  "files_before s = (if m_currentFile s = 0xFFFFFFFF then 0 else unat (m_currentFile s))"

definition moved_past_final :: "Receiver \<Rightarrow> bool" where
  "moved_past_final s \<longleftrightarrow>
     (\<forall>i. i < length (m_files s) \<and> i < files_before s \<longrightarrow>
          final_status (m_status (m_files s ! i)))"

definition prevent_ok :: "Receiver \<Rightarrow> bool" where
  "prevent_ok s \<longleftrightarrow>
     (m_preventUserTogglePause s \<longrightarrow>
        r_status s = S_PausedByUser \<or>
        (r_status s = S_PausedByPeer \<and>
         (case m_oldStatusStack s of [] \<Rightarrow> False | x # xs \<Rightarrow> x = S_PausedByUser)))"

definition counters_done :: "Receiver \<Rightarrow> bool" where
  "counters_done s \<longleftrightarrow>
     m_transferredFiles (m_transferInfo s) + m_skippedFiles (m_transferInfo s) =
       m_totalFiles (m_transferInfo s)"

definition in_transfer_inv :: "Receiver \<Rightarrow> bool" where
  "in_transfer_inv s \<longleftrightarrow>
     length (m_files s) = unat (m_totalFiles (m_transferInfo s)) \<and>
     unat (m_currentFile s) < unat (m_totalFiles (m_transferInfo s)) \<and>
     unat (m_transferredFiles (m_transferInfo s)) + unat (m_skippedFiles (m_transferInfo s)) =
       unat (m_currentFile s)"

definition before_transfer_inv :: "Receiver \<Rightarrow> Status \<Rightarrow> bool" where
  "before_transfer_inv s b \<longleftrightarrow>
     m_currentFile s = 0xFFFFFFFF \<and> m_transferredFiles (m_transferInfo s) = 0 \<and>
     m_skippedFiles (m_transferInfo s) = 0 \<and>
     length (m_files s) \<le> unat (m_totalFiles (m_transferInfo s)) \<and>
     (m_preventUserTogglePause s \<and> b = S_Connected \<longrightarrow>
        length (m_files s) = unat (m_totalFiles (m_transferInfo s)))"

definition phase_inv :: "Receiver \<Rightarrow> Status \<Rightarrow> bool" where
  "phase_inv s b \<longleftrightarrow> (if b = S_InTransfer then in_transfer_inv s else before_transfer_inv s b)"

definition ended_inv :: "Receiver \<Rightarrow> bool" where
  "ended_inv s \<longleftrightarrow>
     counters_done s \<and>
     (if r_status s = S_Aborted
      then m_currentFile s < m_totalFiles (m_transferInfo s) \<and>
           unat (m_currentFile s) < length (m_files s) \<longrightarrow>
             m_status (m_files s ! unat (m_currentFile s)) = TransferFailed
      else m_currentFile s = 0xFFFFFFFF \<or>
           (unat (m_currentFile s) = unat (m_totalFiles (m_transferInfo s)) \<and>
            length (m_files s) = unat (m_totalFiles (m_transferInfo s))))"

definition receiver_inv :: "Receiver \<Rightarrow> bool" where
  "receiver_inv s \<longleftrightarrow>
     moved_past_final s \<and>
     (if ended (r_status s) then ended_inv s
      else prevent_ok s \<and>
           (case base_of (r_status s) (m_oldStatusStack s) of
              None \<Rightarrow> False
            | Some b \<Rightarrow> phase_inv s b))"

text \<open>
  The bytes.  \<open>declared_bytes\<close> adds the declared sizes as numbers, where the receiver
  adds them as 64-bit words; \<open>writer_credit\<close> is what the writer of the current file can
  still take.
\<close>

definition declared_bytes :: "FileInfo list \<Rightarrow> nat" where
  "declared_bytes fs = sum_list (map (\<lambda>f. unat (m_size f)) fs)"

definition writer_credit :: "Receiver \<Rightarrow> nat" where
  "writer_credit s =
     (case m_fileInTransfer s of None \<Rightarrow> 0 | Some w \<Rightarrow> unat (m_remainingBytes w))"

definition files_started :: "Receiver \<Rightarrow> nat" where
  "files_started s =
     (case m_fileInTransfer s of None \<Rightarrow> unat (m_currentFile s)
      | Some w \<Rightarrow> unat (m_currentFile s) + 1)"

definition bytes_bound :: "Receiver \<Rightarrow> bool" where
  "bytes_bound s \<longleftrightarrow>
     m_totalFiles (m_transferInfo s) < INT_MAX \<and>
     (if m_currentFile s = 0xFFFFFFFF
      then m_transferredBytes (m_transferInfo s) = 0 \<and> m_fileInTransfer s = None \<and>
           (m_preventUserTogglePause s \<longrightarrow>
              sum_list (map m_size (m_files s)) = m_totalBytes (m_transferInfo s))
      else sum_list (map m_size (m_files s)) = m_totalBytes (m_transferInfo s) \<and>
           (declared_bytes (m_files s) < 2 ^ 64 \<longrightarrow>
              unat (m_transferredBytes (m_transferInfo s)) \<le> declared_bytes (m_files s)))"

definition bytes_live :: "Receiver \<Rightarrow> bool" where
  "bytes_live s \<longleftrightarrow>
     (m_currentFile s \<noteq> 0xFFFFFFFF \<and> declared_bytes (m_files s) < 2 ^ 64 \<longrightarrow>
        unat (m_transferredBytes (m_transferInfo s)) + writer_credit s \<le>
          declared_bytes (take (files_started s) (m_files s)) \<and>
        (m_preventUserTogglePause s \<longrightarrow>
           unat (m_transferredBytes (m_transferInfo s)) \<le>
             declared_bytes (take (unat (m_currentFile s)) (m_files s))))"

definition bytes_inv :: "Receiver \<Rightarrow> bool" where
  "bytes_inv s \<longleftrightarrow> bytes_bound s \<and> (\<not> ended (r_status s) \<longrightarrow> bytes_live s)"

definition full_inv :: "Receiver \<Rightarrow> bool" where
  "full_inv s \<longleftrightarrow> receiver_inv s \<and> bytes_inv s"

subsection \<open>Sample sessions\<close>











section \<open>Claims about FileInfo\<close>

lemma le_encode_length [simp]: "length (le_encode n v) = n"
  by (induction n arbitrary: v) simp_all

lemma le_decode_encode: "le_decode (le_encode n v) = v mod 256 ^ n"
proof (induction n arbitrary: v)
  case 0
  then show ?case by simp
next
  case (Suc n)
  have "unat (of_nat (v mod 256) :: byte) = v mod 256"
    by (simp add: unat_of_nat)
  then show ?case using Suc [of "v div 256"]
    by (simp add: mod_mult2_eq)
qed

lemma read_raw_exact:
  "length xs = n \<Longrightarrow>
     read_raw n \<lparr>ds_bytes = xs @ rest, ds_ok = True\<rparr> = (xs, \<lparr>ds_bytes = rest, ds_ok = True\<rparr>)"
  by (simp add: read_raw_def)

lemma read_write_quint32:
  "read_quint32 \<lparr>ds_bytes = write_quint32 w @ rest, ds_ok = True\<rparr> =
     (w, \<lparr>ds_bytes = rest, ds_ok = True\<rparr>)"
proof -
  have "unat w mod 256 ^ 4 = unat w"
    using unsigned_less [of w, where 'a = nat] by simp
  then show ?thesis
    by (simp add: read_quint32_def write_quint32_def read_raw_exact le_decode_encode)
qed

lemma read_write_quint64:
  "read_quint64 \<lparr>ds_bytes = write_quint64 w @ rest, ds_ok = True\<rparr> =
     (w, \<lparr>ds_bytes = rest, ds_ok = True\<rparr>)"
proof -
  have "unat w mod 256 ^ 8 = unat w"
    using unsigned_less [of w, where 'a = nat] by simp
  then show ?thesis
    by (simp add: read_quint64_def write_quint64_def read_raw_exact le_decode_encode)
qed

lemma read_write_quint8:
  "read_quint8 \<lparr>ds_bytes = b # rest, ds_ok = True\<rparr> = (b, \<lparr>ds_bytes = rest, ds_ok = True\<rparr>)"
  by (simp add: read_quint8_def read_raw_def)

lemma read_write_QDateTime_any:
  "read_QDateTime \<lparr>ds_bytes = write_QDateTime t @ rest, ds_ok = True\<rparr> =
     (QDateTime_fromStream (dt_jd t) (dt_mds t) (dt_spec t), \<lparr>ds_bytes = rest, ds_ok = True\<rparr>)"
  by (simp add: read_QDateTime_def write_QDateTime_def read_write_quint64 read_write_quint32
        read_write_quint8)

lemma QDateTime_fromStream_wf:
  "QDateTime_wf t \<Longrightarrow> QDateTime_fromStream (dt_jd t) (dt_mds t) (dt_spec t) = t"
  by (auto simp: QDateTime_wf_def QDateTime_fromStream_def toTimeSpec_def)

lemma read_write_QDateTime:
  "QDateTime_wf t \<Longrightarrow>
     read_QDateTime \<lparr>ds_bytes = write_QDateTime t @ rest, ds_ok = True\<rparr> =
       (t, \<lparr>ds_bytes = rest, ds_ok = True\<rparr>)"
  by (simp add: read_write_QDateTime_any QDateTime_fromStream_wf)

lemma fromUtf8_toUtf8 [simp]: "fromUtf8 (toUtf8 s) = s"
proof -
  have "char_of (unat (of_nat (of_char c :: nat) :: byte)) = c" for c :: char
    by (simp add: unat_of_nat)
  then show ?thesis
    by (simp add: fromUtf8_def toUtf8_def map_idI)
qed

lemma read_write_QByteArray:
  assumes "QByteArray_ok b"
  shows "read_QByteArray \<lparr>ds_bytes = write_QByteArray b @ rest, ds_ok = True\<rparr> =
     (b, \<lparr>ds_bytes = rest, ds_ok = True\<rparr>)"
proof -
  have l: "length b < 2 ^ 31" using assms by (simp add: QByteArray_ok_def)
  then have u: "unat (of_nat (length b) :: quint32) = length b"
    by (simp add: unat_of_nat)
  have "(of_nat (length b) :: quint32) \<noteq> 0xFFFFFFFF"
  proof
    assume "(of_nat (length b) :: quint32) = 0xFFFFFFFF"
    then have "unat (of_nat (length b) :: quint32) = unat (0xFFFFFFFF :: quint32)" by simp
    with u l show False by simp
  qed
  then show ?thesis
    by (simp add: read_QByteArray_def write_QByteArray_def read_write_quint32 u read_raw_exact)
qed

lemma FileInfo_new_valid_iff:
  "m_valid (FileInfo_new p sz lm) \<longleftrightarrow>
     isRelative p \<and> p = cleanPath p \<and> \<not> startsWith p ''../''"
  by (auto simp: FileInfo_new_def looks_strange_def Let_def)

lemma FileInfo_read_valid_iff:
  "m_valid (fst (FileInfo_read st target)) \<longleftrightarrow>
     ds_ok (snd (FileInfo_read st target)) \<and>
     isRelative (m_filePath (fst (FileInfo_read st target))) \<and>
     m_filePath (fst (FileInfo_read st target)) =
       cleanPath (m_filePath (fst (FileInfo_read st target))) \<and>
     \<not> startsWith (m_filePath (fst (FileInfo_read st target))) ''../''"
  by (auto simp: FileInfo_read_def looks_strange_def Let_def split: prod.splits)

text \<open>
  Every path that passes the three checks and is not empty has a file name.
\<close>

lemma split_path_nonempty: "split_path p \<noteq> []"
  by (induction p) (auto split: list.splits)

lemma split_path_no_slash: "seg \<in> set (split_path p) \<Longrightarrow> CHR ''/'' \<notin> set seg"
proof (induction p arbitrary: seg)
  case Nil
  then show ?case by simp
next
  case (Cons c cs)
  then show ?case
    by (cases "split_path cs") (auto split: if_splits)
qed

lemma normalize_segments_subset:
  "seg \<in> set (normalize_segments acc segs) \<Longrightarrow>
     seg \<in> set acc \<or> (seg \<in> set segs \<and> seg \<noteq> [])"
proof (induction acc segs rule: normalize_segments.induct)
  case (1 acc)
  then show ?case by simp
next
  case (2 acc s rest)
  then show ?case
    by (auto split: if_splits list.splits)
qed

lemma join_path_last:
  "segs \<noteq> [] \<Longrightarrow> \<forall>seg\<in>set segs. seg \<noteq> [] \<Longrightarrow>
     join_path segs \<noteq> [] \<and> last (join_path segs) = last (last segs)"
  by (induction segs rule: join_path.induct) auto

lemma clean_relative_last:
  assumes "p = cleanPath p" "isRelative p" "p \<noteq> []"
  shows "last p \<noteq> CHR ''/''"
proof -
  let ?segs = "normalize_segments [] (split_path p)"
  have hd: "hd p \<noteq> CHR ''/''" using assms(2,3) by (simp add: isRelative_def)
  show ?thesis
  proof (cases "?segs = []")
    case True
    then have "cleanPath p = ''.''" using assms(3) hd by (simp add: cleanPath_def)
    with assms(1) have "p = ''.''" by simp
    then show ?thesis by simp
  next
    case False
    then have cp: "cleanPath p = join_path ?segs" using assms(3) hd by (simp add: cleanPath_def Let_def)
    have ne: "\<forall>seg\<in>set ?segs. seg \<noteq> []"
      using normalize_segments_subset [of _ "[]" "split_path p"] by auto
    have ns: "\<forall>seg\<in>set ?segs. CHR ''/'' \<notin> set seg"
      using normalize_segments_subset [of _ "[]" "split_path p"] split_path_no_slash [of _ p]
      by auto
    from join_path_last [OF False ne] have l: "last (join_path ?segs) = last (last ?segs)" by simp
    have "last ?segs \<in> set ?segs" using False by simp
    then have "last ?segs \<noteq> []" "CHR ''/'' \<notin> set (last ?segs)" using ne ns by auto
    then have "last (last ?segs) \<noteq> CHR ''/''"
      using last_in_set by metis
    with l cp assms(1) show ?thesis by simp
  qed
qed

lemma fileName_nonempty: "p \<noteq> [] \<Longrightarrow> last p \<noteq> CHR ''/'' \<Longrightarrow> fileName p \<noteq> []"
  by (cases p rule: rev_cases) (simp_all add: fileName_def)

lemma valid_path_has_name:
  "\<not> looks_strange p \<Longrightarrow> p \<noteq> [] \<Longrightarrow> fileName p \<noteq> []"
  using clean_relative_last [of p] fileName_nonempty [of p]
  by (auto simp: looks_strange_def)

lemma FileInfo_new_valid_name:
  "m_valid (FileInfo_new p sz lm) \<Longrightarrow> p \<noteq> [] \<Longrightarrow> m_name (FileInfo_new p sz lm) \<noteq> []"
  using valid_path_has_name [of p]
  by (auto simp: FileInfo_new_def Let_def split: if_splits)

text \<open>
  Claim C2.  The constructor of \<open>FileInfo\<close> and the decoding operator accept a path
  exactly when it is relative, equal to its cleaned form and not starting with \<open>../\<close>;
  neither checks that the file name is not empty.  The empty path passes the three checks:
  the constructor and the decoder of an \<open>ITEM\<close> whose path has length 0 both produce a
  valid descriptor with an empty file name.
\<close>

theorem FileInfo_empty_path_accepted:
  "m_valid (FileInfo_new [] sz lm) \<and> m_name (FileInfo_new [] sz lm) = [] \<and>
   m_valid (fst (FileInfo_read
      \<lparr>ds_bytes = write_QByteArray [] @ write_quint64 sz @ write_QDateTime lm, ds_ok = True\<rparr>
      target)) \<and>
   m_name (fst (FileInfo_read
      \<lparr>ds_bytes = write_QByteArray [] @ write_quint64 sz @ write_QDateTime lm, ds_ok = True\<rparr>
      target)) = []"
proof -
  have s: "\<not> looks_strange []"
    by (simp add: looks_strange_def cleanPath_def startsWith_def isRelative_def)
  have r: "read_QByteArray
      \<lparr>ds_bytes = write_QByteArray [] @ write_quint64 sz @ write_QDateTime lm, ds_ok = True\<rparr> =
      ([], \<lparr>ds_bytes = write_quint64 sz @ write_QDateTime lm, ds_ok = True\<rparr>)"
    by (rule read_write_QByteArray) (simp add: QByteArray_ok_def)
  have q: "read_quint64 \<lparr>ds_bytes = write_quint64 sz @ write_QDateTime lm, ds_ok = True\<rparr> =
      (sz, \<lparr>ds_bytes = write_QDateTime lm, ds_ok = True\<rparr>)"
    by (rule read_write_quint64)
  have t: "read_QDateTime \<lparr>ds_bytes = write_QDateTime lm, ds_ok = True\<rparr> =
      (QDateTime_fromStream (dt_jd lm) (dt_mds lm) (dt_spec lm), \<lparr>ds_bytes = [], ds_ok = True\<rparr>)"
    using read_write_QDateTime_any [of lm "[]"] by simp
  show ?thesis
    using s by (simp add: FileInfo_new_def FileInfo_read_def r q t fromUtf8_def fileName_def Let_def)
qed

lemma FileInfo_roundtrip_except_status_aux:
  assumes "FileInfo_wf D" and "length (m_filePath D) < 2 ^ 31" and "QDateTime_wf (m_lastModified D)"
  shows "FileInfo_read \<lparr>ds_bytes = FileInfo_write D @ rest, ds_ok = True\<rparr> target =
           (D\<lparr>m_status := m_status target\<rparr>, \<lparr>ds_bytes = rest, ds_ok = True\<rparr>)"
proof -
  from assms(1) have v: "m_valid D" and sc: "m_status D = Scheduled"
    and ns: "\<not> looks_strange (m_filePath D)"
    and nm: "m_name D = fileName (m_filePath D)" and pt: "m_path D = dirPath (m_filePath D)"
    by (simp_all add: FileInfo_wf_def)
  have ok: "QByteArray_ok (toUtf8 (m_filePath D))"
    using assms(2) by (simp add: QByteArray_ok_def toUtf8_def)
  have w: "FileInfo_write D @ rest =
      write_QByteArray (toUtf8 (m_filePath D)) @
        (write_quint64 (m_size D) @ (write_QDateTime (m_lastModified D) @ rest))"
    using v sc by (simp add: FileInfo_write_def)
  have r1: "read_QByteArray \<lparr>ds_bytes = FileInfo_write D @ rest, ds_ok = True\<rparr> =
      (toUtf8 (m_filePath D),
       \<lparr>ds_bytes = write_quint64 (m_size D) @ (write_QDateTime (m_lastModified D) @ rest),
        ds_ok = True\<rparr>)"
    unfolding w by (rule read_write_QByteArray [OF ok])
  have r2: "read_quint64
       \<lparr>ds_bytes = write_quint64 (m_size D) @ (write_QDateTime (m_lastModified D) @ rest),
        ds_ok = True\<rparr> =
      (m_size D, \<lparr>ds_bytes = write_QDateTime (m_lastModified D) @ rest, ds_ok = True\<rparr>)"
    by (rule read_write_quint64)
  have r3: "read_QDateTime \<lparr>ds_bytes = write_QDateTime (m_lastModified D) @ rest, ds_ok = True\<rparr> =
      (m_lastModified D, \<lparr>ds_bytes = rest, ds_ok = True\<rparr>)"
    by (rule read_write_QDateTime [OF assms(3)])
  have main: "FileInfo_read \<lparr>ds_bytes = FileInfo_write D @ rest, ds_ok = True\<rparr> target =
           (D\<lparr>m_status := m_status target\<rparr>, \<lparr>ds_bytes = rest, ds_ok = True\<rparr>)"
    using v ns nm pt by (simp add: FileInfo_read_def r1 r2 r3 Let_def)
  show ?thesis by (rule main)
qed

text \<open>
  Claim C6.  The descriptors put on the wire are valid and \<open>Scheduled\<close>, so
  \<open>decode(encode(D)) = D\<close> needs the decoded object to be \<open>Scheduled\<close>.  In the code
  the status is not transmitted, \<open>operator>>\<close> does not assign it, and the object
  that \<open>itemCommand\<close> decodes into comes from the default constructor, which leaves the
  status uninitialised (\<open>status0\<close> below).  Let \<open>D\<close> be a valid descriptor in the status
  \<open>Scheduled\<close> whose path passes the checks, whose name and directory are those of its
  path, whose path is shorter than \<open>2^31\<close> bytes and whose date is a valid one in local
  time or UTC.  Decoding the encoding of \<open>D\<close> consumes exactly the encoding and yields
  \<open>D\<close> with the status \<open>status0\<close>: every member but the status is restored, and the
  result differs from \<open>D\<close> whenever the memory did not happen to hold \<open>Scheduled\<close>.
\<close>

theorem FileInfo_roundtrip_except_status:
  assumes "FileInfo_wf D" and "length (m_filePath D) < 2 ^ 31"
    and "QDateTime_wf (m_lastModified D)"
  shows "FileInfo_read \<lparr>ds_bytes = FileInfo_write D @ rest, ds_ok = True\<rparr>
             (FileInfo_default size0 status0) =
           (D\<lparr>m_status := status0\<rparr>, \<lparr>ds_bytes = rest, ds_ok = True\<rparr>) \<and>
         (status0 \<noteq> Scheduled \<longrightarrow>
            fst (FileInfo_read \<lparr>ds_bytes = FileInfo_write D @ rest, ds_ok = True\<rparr>
                   (FileInfo_default size0 status0)) \<noteq> D)"
proof -
  from assms(1) have sc: "m_status D = Scheduled" by (simp add: FileInfo_wf_def)
  have st: "m_status (FileInfo_default size0 status0) = status0"
    by (simp add: FileInfo_default_def)
  have "D\<lparr>m_status := status0\<rparr> \<noteq> D" if "status0 \<noteq> Scheduled"
  proof
    assume "D\<lparr>m_status := status0\<rparr> = D"
    then have "m_status (D\<lparr>m_status := status0\<rparr>) = m_status D" by simp
    with sc that show False by simp
  qed
  then show ?thesis
    by (simp add: FileInfo_roundtrip_except_status_aux [OF assms] st)
qed

lemma sample_descriptor:
  "FileInfo_new ''b/c.bin'' 4096 sample_date =
      \<lparr>m_valid = True, m_filePath = ''b/c.bin'', m_name = ''c.bin'', m_path = ''b'',
       m_size = 4096, m_lastModified = sample_date, m_status = Scheduled\<rparr>"
  "FileInfo_wf (FileInfo_new ''b/c.bin'' 4096 sample_date)"
  "length (m_filePath (FileInfo_new ''b/c.bin'' 4096 sample_date)) < 2 ^ 31"
  "QDateTime_wf (m_lastModified (FileInfo_new ''b/c.bin'' 4096 sample_date))"
proof -
  have c: "cleanPath ''b/c.bin'' = ''b/c.bin''"
    by (simp add: cleanPath_def Let_def)
  show n: "FileInfo_new ''b/c.bin'' 4096 sample_date =
      \<lparr>m_valid = True, m_filePath = ''b/c.bin'', m_name = ''c.bin'', m_path = ''b'',
       m_size = 4096, m_lastModified = sample_date, m_status = Scheduled\<rparr>"
    by (simp add: FileInfo_new_def looks_strange_def c startsWith_def isRelative_def
          fileName_def dirPath_def Let_def)
  show "FileInfo_wf (FileInfo_new ''b/c.bin'' 4096 sample_date)"
    unfolding n
    by (simp add: FileInfo_wf_def looks_strange_def c startsWith_def isRelative_def
          fileName_def dirPath_def Let_def)
  show "length (m_filePath (FileInfo_new ''b/c.bin'' 4096 sample_date)) < 2 ^ 31"
    unfolding n by simp
  show "QDateTime_wf (m_lastModified (FileInfo_new ''b/c.bin'' 4096 sample_date))"
    unfolding n
    by (simp add: QDateTime_wf_def sample_date_def QDate_isValid_def QTime_isValid_def)
qed

theorem FileInfo_roundtrip_except_status_witness:
  "FileInfo_wf (FileInfo_new ''b/c.bin'' 4096 sample_date) \<and>
   length (m_filePath (FileInfo_new ''b/c.bin'' 4096 sample_date)) < 2 ^ 31 \<and>
   QDateTime_wf (m_lastModified (FileInfo_new ''b/c.bin'' 4096 sample_date)) \<and>
   FileInfo_read \<lparr>ds_bytes = FileInfo_write (FileInfo_new ''b/c.bin'' 4096 sample_date) @ [20],
                  ds_ok = True\<rparr> (FileInfo_default 0 TransferFailed) =
     ((FileInfo_new ''b/c.bin'' 4096 sample_date)\<lparr>m_status := TransferFailed\<rparr>,
      \<lparr>ds_bytes = [20], ds_ok = True\<rparr>) \<and>
   fst (FileInfo_read \<lparr>ds_bytes = FileInfo_write (FileInfo_new ''b/c.bin'' 4096 sample_date) @ [20],
                  ds_ok = True\<rparr> (FileInfo_default 0 TransferFailed)) \<noteq>
     FileInfo_new ''b/c.bin'' 4096 sample_date"
proof -
  note t = FileInfo_roundtrip_except_status
      [OF sample_descriptor(2,3,4), of "[20]" 0 TransferFailed]
  have ne: "TransferFailed \<noteq> Scheduled" by simp
  from t ne sample_descriptor(2,3,4) show ?thesis by blast
qed

section \<open>Properties of FileInTransfer\<close>

lemma writer_flags_inv_new: "writer_flags_inv (FileInTransferWriter_new fi ex mk op)"
  by (simp add: writer_flags_inv_def FileInTransferWriter_new_def Let_def)

lemma writer_flags_inv_apply: "writer_flags_inv w \<Longrightarrow> writer_flags_inv (writer_apply w c)"
  by (cases c)
     (auto simp: writer_flags_inv_def Writer_processNextDataChunk_def Writer_commit_def
        Writer_rollback_def QSaveFile_commit_def Let_def split: if_splits prod.splits)

lemma writer_flags_inv_run:
  "writer_flags_inv w \<Longrightarrow> writer_flags_inv (foldl writer_apply w cs)"
  by (induction cs arbitrary: w) (simp_all add: writer_flags_inv_apply)

lemma reader_flags_inv_new: "reader_flags_inv (FileInTransferReader_new fi ex un op)"
  by (simp add: reader_flags_inv_def FileInTransferReader_new_def Let_def)

lemma reader_flags_inv_apply: "reader_flags_inv r \<Longrightarrow> reader_flags_inv (reader_apply r c)"
  by (cases c)
     (auto simp: reader_flags_inv_def Reader_processNextDataChunk_def Reader_commit_def
        Reader_rollback_def Let_def split: if_splits option.splits)

lemma reader_flags_inv_run:
  "reader_flags_inv r \<Longrightarrow> reader_flags_inv (foldl reader_apply r cs)"
  by (induction cs arbitrary: r) (simp_all add: reader_flags_inv_apply)

lemma writer_flags_inv_facts:
  assumes "writer_flags_inv w"
  shows "\<not> (m_committed w \<and> m_rollbacked w)"
    and "m_committed w \<Longrightarrow> Writer_rollback w = (False, w)"
    and "m_rollbacked w \<Longrightarrow> Writer_commit w cr = (False, w\<lparr>m_transferStarted := True,
           m_file := QSaveFile_cancelWriting (m_file w)\<rparr>)"
    and "m_committed w \<Longrightarrow> Writer_commit w cr = (True, w)"
  using assms
  by (auto simp: writer_flags_inv_def Writer_commit_def Writer_rollback_def Let_def)

lemma reader_flags_inv_facts:
  assumes "reader_flags_inv r"
  shows "\<not> (m_committed r \<and> m_rollbacked r)"
    and "m_committed r \<Longrightarrow> Reader_rollback r = (False, r)"
    and "m_rollbacked r \<Longrightarrow> fst (Reader_commit r atEnd un) = False \<and> \<not> m_committed (snd (Reader_commit r atEnd un))"
    and "m_committed r \<Longrightarrow> Reader_commit r atEnd un = (True, r)"
  using assms
  by (auto simp: reader_flags_inv_def Reader_commit_def Reader_rollback_def Let_def)

lemma unat_of_nat_QByteArray: "QByteArray_ok b \<Longrightarrow> unat (of_nat (length b) :: quint64) = length b"
  by (simp add: QByteArray_ok_def unat_of_nat)

lemma writer_chunk_refused:
  assumes "QByteArray_ok buffer" "unat (m_remainingBytes w) < length buffer"
  shows "Writer_processNextDataChunk w buffer wr =
           (False, w\<lparr>m_transferStarted := True, m_error := True\<rparr>)"
proof -
  have "m_remainingBytes w < of_nat (length buffer)"
    using assms by (simp add: word_less_nat_alt unat_of_nat_QByteArray)
  then show ?thesis
    by (simp add: Writer_processNextDataChunk_def Let_def)
qed

lemma writer_error_sticky:
  "m_error w \<Longrightarrow> m_error (writer_apply w c) \<and>
     sf_tmpData (m_file (writer_apply w c)) = sf_tmpData (m_file w)"
  by (cases c)
     (auto simp: Writer_processNextDataChunk_def Writer_commit_def Writer_rollback_def
        QSaveFile_cancelWriting_def Let_def)

lemma writer_error_no_more_writes:
  "m_error w \<Longrightarrow> sf_tmpData (m_file (foldl writer_apply w cs)) = sf_tmpData (m_file w)"
proof (induction cs arbitrary: w)
  case Nil
  then show ?case by simp
next
  case (Cons c cs)
  from writer_error_sticky [OF Cons.prems, of c]
  have e: "m_error (writer_apply w c)"
    and t: "sf_tmpData (m_file (writer_apply w c)) = sf_tmpData (m_file w)" by simp_all
  show ?case using Cons.IH [OF e] t by simp
qed

lemma writer_commit_needs_zero:
  "\<not> m_committed w \<Longrightarrow> fst (Writer_commit w cr) \<Longrightarrow> m_remainingBytes w = 0"
  by (auto simp: Writer_commit_def Writer_rollback_def Let_def split: if_splits prod.splits)

lemma writer_size_inv_new: "writer_size_inv (m_size fi) (FileInTransferWriter_new fi ex mk op)"
  by (simp add: writer_size_inv_def FileInTransferWriter_new_def QSaveFile_closed_def Let_def)

lemma writer_size_inv_chunk:
  assumes "writer_size_inv S w" "QByteArray_ok buffer"
  shows "writer_size_inv S (snd (Writer_processNextDataChunk w buffer wr))"
proof (cases "m_error w \<or> \<not> sf_isOpen (m_file w) \<or> m_remainingBytes w < of_nat (length buffer)")
  case True
  then show ?thesis using assms(1)
    by (auto simp: Writer_processNextDataChunk_def writer_size_inv_def Let_def)
next
  case False
  then have le: "length buffer \<le> unat (m_remainingBytes w)"
    using assms(2) by (simp add: word_less_nat_alt unat_of_nat_QByteArray not_less)
  have sub: "unat (m_remainingBytes w - of_nat (length buffer)) =
               unat (m_remainingBytes w) - length buffer"
    using le assms(2) by (simp add: unat_sub word_le_nat_alt unat_of_nat_QByteArray)
  from False have ne: "\<not> m_error w" by simp
  show ?thesis
    using assms(1) False le sub ne
    by (auto simp: Writer_processNextDataChunk_def writer_size_inv_def Let_def QSaveFile_write_def)
qed

lemma writer_size_inv_commit:
  assumes "writer_size_inv S w"
  shows "writer_size_inv S (snd (Writer_commit w cr))"
  using assms
  by (auto simp: Writer_commit_def Writer_rollback_def writer_size_inv_def Let_def
        QSaveFile_commit_def QSaveFile_cancelWriting_def split: if_splits prod.splits)

lemma writer_size_inv_rollback:
  assumes "writer_size_inv S w"
  shows "writer_size_inv S (snd (Writer_rollback w))"
  using assms
  by (auto simp: Writer_rollback_def writer_size_inv_def QSaveFile_cancelWriting_def)

lemma writer_size_inv_apply:
  "writer_size_inv S w \<Longrightarrow> writer_call_ok c \<Longrightarrow> writer_size_inv S (writer_apply w c)"
  by (cases c) (simp_all add: writer_size_inv_chunk writer_size_inv_commit writer_size_inv_rollback)

lemma writer_size_inv_run:
  "writer_size_inv S w \<Longrightarrow> list_all writer_call_ok cs \<Longrightarrow>
     writer_size_inv S (foldl writer_apply w cs)"
  by (induction cs arbitrary: w) (simp_all add: writer_size_inv_apply)

lemma writer_size_inv_commit_zero:
  "writer_size_inv S w \<Longrightarrow> fst (Writer_commit w cr) \<Longrightarrow> m_remainingBytes w = 0"
  by (cases "m_committed w") (auto simp: writer_size_inv_def dest: writer_commit_needs_zero)

section \<open>Claims about FileInTransfer\<close>

text \<open>
  Claim C9.  \<open>FileInTransferWriter::processNextDataChunk\<close> refuses a chunk longer than
  the bytes still remaining: it returns false, leaves the file untouched and sets the error
  flag, after which no call writes anything further.  \<open>commit\<close> succeeds only when the
  remaining byte count is zero.  Hence, along every sequence of calls on a writer created
  for a descriptor, the bytes written to the destination never exceed the declared size,
  a destination content exists exactly when the instance is committed, and that content
  has exactly the declared number of bytes.
\<close>

theorem Writer_never_exceeds_declared_size:
  "(QByteArray_ok buffer \<and> unat (m_remainingBytes w) < length buffer \<longrightarrow>
      Writer_processNextDataChunk w buffer wr =
        (False, w\<lparr>m_transferStarted := True, m_error := True\<rparr>)) \<and>
   (m_error w \<longrightarrow>
      sf_tmpData (m_file (foldl writer_apply w calls)) = sf_tmpData (m_file w)) \<and>
   (\<not> m_committed w \<and> fst (Writer_commit w cr) \<longrightarrow> m_remainingBytes w = 0) \<and>
   (list_all writer_call_ok calls \<longrightarrow>
      (let w' = foldl writer_apply (FileInTransferWriter_new fi ex mk op) calls
       in length (sf_tmpData (m_file w')) \<le> unat (m_size fi) \<and>
          (fst (Writer_commit w' cr) \<longrightarrow> m_remainingBytes w' = 0) \<and>
          (sf_target (m_file w') \<noteq> None \<longleftrightarrow> m_committed w') \<and>
          (\<forall>d. sf_target (m_file w') = Some d \<longrightarrow> length d = unat (m_size fi))))"
proof (intro conjI impI)
  assume "QByteArray_ok buffer \<and> unat (m_remainingBytes w) < length buffer"
  then show "Writer_processNextDataChunk w buffer wr =
        (False, w\<lparr>m_transferStarted := True, m_error := True\<rparr>)"
    by (simp add: writer_chunk_refused)
next
  assume "m_error w"
  then show "sf_tmpData (m_file (foldl writer_apply w calls)) = sf_tmpData (m_file w)"
    by (rule writer_error_no_more_writes)
next
  assume "\<not> m_committed w \<and> fst (Writer_commit w cr)"
  then show "m_remainingBytes w = 0"
    by (blast dest: writer_commit_needs_zero)
next
  assume ok: "list_all writer_call_ok calls"
  have inv: "writer_size_inv (m_size fi)
               (foldl writer_apply (FileInTransferWriter_new fi ex mk op) calls)"
    by (rule writer_size_inv_run [OF writer_size_inv_new ok])
  show "let w' = foldl writer_apply (FileInTransferWriter_new fi ex mk op) calls
       in length (sf_tmpData (m_file w')) \<le> unat (m_size fi) \<and>
          (fst (Writer_commit w' cr) \<longrightarrow> m_remainingBytes w' = 0) \<and>
          (sf_target (m_file w') \<noteq> None \<longleftrightarrow> m_committed w') \<and>
          (\<forall>d. sf_target (m_file w') = Some d \<longrightarrow> length d = unat (m_size fi))"
    unfolding Let_def
    using inv writer_size_inv_commit_zero [OF inv, of cr]
    by (auto simp: writer_size_inv_def)
qed

theorem Writer_never_exceeds_declared_size_witness:
  "(let w = FileInTransferWriter_new (sample_file 3) False True True
    in QByteArray_ok [1, 2, 3, 4] \<and> unat (m_remainingBytes w) < length [1, 2, 3, 4 :: byte] \<and>
       Writer_processNextDataChunk w [1, 2, 3, 4] 4 =
         (False, w\<lparr>m_transferStarted := True, m_error := True\<rparr>)) \<and>
   (let w = FileInTransferWriter_new (sample_file 3) False True False
    in m_error w \<and>
       sf_tmpData (m_file (foldl writer_apply w [W_Chunk [1, 2, 3] 3, W_Commit True])) =
         sf_tmpData (m_file w)) \<and>
   (let w = FileInTransferWriter_new (sample_file 0) False True True
    in \<not> m_committed w \<and> fst (Writer_commit w True) \<and> m_remainingBytes w = 0) \<and>
   (let calls = [W_Chunk [1, 2, 3] 3, W_Commit True];
        w' = foldl writer_apply (FileInTransferWriter_new (sample_file 3) False True True) calls
    in list_all writer_call_ok calls \<and> fst (Writer_commit w' True) \<and>
       sf_target (m_file w') = Some [1, 2, 3] \<and>
       length (sf_tmpData (m_file w')) \<le> unat (m_size (sample_file 3)) \<and>
       m_remainingBytes w' = 0 \<and> m_committed w' \<and>
       length [1, 2, 3 :: byte] = unat (m_size (sample_file 3)))"
  using
    Writer_never_exceeds_declared_size
      [where buffer = "[1, 2, 3, 4]" and wr = 4 and cr = True and calls = "[]"
         and w = "FileInTransferWriter_new (sample_file 3) False True True"
         and fi = "sample_file 3" and ex = False and mk = True and op = True]
    Writer_never_exceeds_declared_size
      [where buffer = "[]" and wr = 0 and cr = True
         and calls = "[W_Chunk [1, 2, 3] 3, W_Commit True]"
         and w = "FileInTransferWriter_new (sample_file 3) False True False"
         and fi = "sample_file 3" and ex = False and mk = True and op = True]
    Writer_never_exceeds_declared_size
      [where buffer = "[]" and wr = 0 and cr = True and calls = "[]"
         and w = "FileInTransferWriter_new (sample_file 0) False True True"
         and fi = "sample_file 3" and ex = False and mk = True and op = True]
  by (simp add: Let_def sample_file_def FileInTransferWriter_new_def QSaveFile_closed_def
        Writer_processNextDataChunk_def Writer_commit_def Writer_rollback_def
        QSaveFile_commit_def QSaveFile_write_def QSaveFile_cancelWriting_def
        QByteArray_ok_def)

text \<open>
  Claim C10.  For a reader and for a writer, after any sequence of
  \<open>processNextDataChunk\<close>, \<open>commit\<close> and \<open>rollback\<close> calls on a freshly constructed
  instance: the committed and the rolled-back flag are never both set; \<open>rollback\<close> on a
  committed instance returns false and changes nothing; \<open>commit\<close> on a rolled-back
  instance returns false and does not commit; \<open>commit\<close> on a committed instance returns
  true and changes nothing.
\<close>

theorem FileInTransfer_commit_rollback_exclusive:
  "(let w = foldl writer_apply (FileInTransferWriter_new fi ex mk op) wcalls;
        r = foldl reader_apply (FileInTransferReader_new fi ex' un op') rcalls
    in \<not> (m_committed w \<and> m_rollbacked w) \<and>
       (m_committed w \<longrightarrow> Writer_rollback w = (False, w)) \<and>
       (m_rollbacked w \<longrightarrow> \<not> fst (Writer_commit w cr) \<and> \<not> m_committed (snd (Writer_commit w cr))) \<and>
       (m_committed w \<longrightarrow> Writer_commit w cr = (True, w)) \<and>
       \<not> (m_committed r \<and> m_rollbacked r) \<and>
       (m_committed r \<longrightarrow> Reader_rollback r = (False, r)) \<and>
       (m_rollbacked r \<longrightarrow> \<not> fst (Reader_commit r atEnd un') \<and> \<not> m_committed (snd (Reader_commit r atEnd un'))) \<and>
       (m_committed r \<longrightarrow> Reader_commit r atEnd un' = (True, r)))"
proof -
  have w: "writer_flags_inv (foldl writer_apply (FileInTransferWriter_new fi ex mk op) wcalls)"
    by (rule writer_flags_inv_run [OF writer_flags_inv_new])
  have r: "reader_flags_inv (foldl reader_apply (FileInTransferReader_new fi ex' un op') rcalls)"
    by (rule reader_flags_inv_run [OF reader_flags_inv_new])
  show ?thesis
    unfolding Let_def
    using writer_flags_inv_facts [OF w] reader_flags_inv_facts [OF r]
    by auto
qed

theorem FileInTransfer_commit_rollback_exclusive_witness:
  "(let w = foldl writer_apply (FileInTransferWriter_new (sample_file 0) False True True)
              [W_Commit True];
        r = foldl reader_apply (FileInTransferReader_new (sample_file 0) True True True)
              [R_Commit True True]
    in m_committed w \<and> \<not> m_rollbacked w \<and> Writer_rollback w = (False, w) \<and>
       Writer_commit w False = (True, w) \<and>
       m_committed r \<and> \<not> m_rollbacked r \<and> Reader_rollback r = (False, r) \<and>
       Reader_commit r False False = (True, r)) \<and>
   (let w = foldl writer_apply (FileInTransferWriter_new (sample_file 0) False True True)
              [W_Rollback];
        r = foldl reader_apply (FileInTransferReader_new (sample_file 0) True True True)
              [R_Rollback]
    in m_rollbacked w \<and> \<not> m_committed w \<and> \<not> fst (Writer_commit w True) \<and>
       \<not> m_committed (snd (Writer_commit w True)) \<and>
       m_rollbacked r \<and> \<not> m_committed r \<and> \<not> fst (Reader_commit r True True) \<and>
       \<not> m_committed (snd (Reader_commit r True True)))"
  using
    FileInTransfer_commit_rollback_exclusive
      [where fi = "sample_file 0" and ex = False and mk = True and op = True
         and wcalls = "[W_Commit True]" and ex' = True and un = True and op' = True
         and rcalls = "[R_Commit True True]" and cr = False and atEnd = False and un' = False]
    FileInTransfer_commit_rollback_exclusive
      [where fi = "sample_file 0" and ex = False and mk = True and op = True
         and wcalls = "[W_Rollback]" and ex' = True and un = True and op' = True
         and rcalls = "[R_Rollback]" and cr = True and atEnd = True and un' = True]
  by (simp add: Let_def sample_file_def FileInTransferWriter_new_def QSaveFile_closed_def
        FileInTransferReader_new_def Reader_updated_def
        Writer_commit_def Writer_rollback_def QSaveFile_commit_def QSaveFile_cancelWriting_def
        Reader_commit_def Reader_rollback_def)

section \<open>Claims about the peers list\<close>

text \<open>
  Claim C3.  A peer whose age was reset to 0 by a datagram is aged by the timer every
  \<open>AGING_INTERVAL\<close> milliseconds.  The claim places the expiry at the fourth tick.
  In the code the comparison is \<open>++m_age > AgeMax\<close>: after four ticks the age is 4, the
  peer is still confirmed and no signal was emitted; the fifth tick makes it unconfirmed
  and emits \<open>peerExpired\<close> exactly once.
\<close>

theorem PeersList_expiry_at_fifth_tick:
  "foldl PeersList_step (pl\<lparr>m_instances := [(k, p\<lparr>m_age := 0\<rparr>)]\<rparr>)
       [AgingTick, AgingTick, AgingTick, AgingTick] =
     pl\<lparr>m_instances := [(k, p\<lparr>m_age := 4\<rparr>)]\<rparr> \<and>
   \<not> unconfirmed (p\<lparr>m_age := 4\<rparr>) \<and>
   foldl PeersList_step (pl\<lparr>m_instances := [(k, p\<lparr>m_age := 0\<rparr>)]\<rparr>)
       [AgingTick, AgingTick, AgingTick, AgingTick, AgingTick] =
     pl\<lparr>m_instances := [(k, p\<lparr>m_age := AgeUnconfirmed\<rparr>)],
        signals := signals pl @ [peerExpired (peer_uuid p)]\<rparr>"
  by (simp add: PeersList_incrementAge_def PeerUser_incrementAge_def emit_signals_def
        AgeUnconfirmed_def AgeMax_def unconfirmed_def peer_uuid_def Let_def)

lemma User_fromJson_valid_age:
  "u_valid (User_fromJson a i j) \<Longrightarrow>
     m_age (User_fromJson a i j) = AgeUnconfirmed \<or> m_age (User_fromJson a i j) = AgeInfinity"
  by (auto simp: User_fromJson_def Let_def split: if_splits)

lemma User_fromJson_valid_info:
  "u_valid (User_fromJson a i j) \<Longrightarrow> m_info (User_fromJson a i j) \<noteq> None"
  by (auto simp: User_fromJson_def Let_def split: if_splits)

lemma PeerUser_fromJson_unconfirmed:
  "u_valid (PeerUser_fromJson a i j) \<Longrightarrow> unconfirmed (PeerUser_fromJson a i j) \<and> m_info (PeerUser_fromJson a i j) \<noteq> None"
  using User_fromJson_valid_age [of a i j] User_fromJson_valid_info [of a i j]
  by (auto simp: PeerUser_fromJson_def Let_def unconfirmed_def localUser_def
        split: if_splits)

lemma load_peers_unconfirmed:
  "\<forall>e\<in>set acc. (unconfirmed (snd e) \<and> m_info (snd e) \<noteq> None) \<Longrightarrow>
     \<forall>e\<in>set (load_peers i me js acc). (unconfirmed (snd e) \<and> m_info (snd e) \<noteq> None)"
proof (induction js arbitrary: acc)
  case Nil
  then show ?case by simp
next
  case (Cons a js)
  obtain obj age0 where a: "a = (obj, age0)" by (cases a)
  have "\<forall>e\<in>set (if u_valid (PeerUser_fromJson age0 i obj) \<and>
                      peer_uuid (PeerUser_fromJson age0 i obj) \<noteq> me
                   then addPeerToList (PeerUser_fromJson age0 i obj) acc else acc).
          (unconfirmed (snd e) \<and> m_info (snd e) \<noteq> None)"
    using Cons.prems PeerUser_fromJson_unconfirmed [of age0 i obj]
    by (auto simp: addPeerToList_def hash_insert_def)
  from Cons.IH [OF this] show ?case by (simp add: a Let_def)
qed

lemma PeersList_new_unconfirmed:
  "\<forall>e\<in>set (m_instances (PeersList_new i ages me disk)). (unconfirmed (snd e) \<and> m_info (snd e) \<noteq> None)"
  using load_peers_unconfirmed [of "[]" i]
  by (cases "disk") (simp_all add: PeersList_new_def)

lemma PeersList_update_file: "peers_json (PeersList_update pl d fresh) = peers_json pl"
  by (simp add: PeersList_update_def emit_signals_def Let_def split: option.splits prod.splits)

lemma PeersList_incrementAge_file: "peers_json (PeersList_incrementAge pl) = peers_json pl"
  by (simp add: PeersList_incrementAge_def emit_signals_def split: prod.splits)

lemma PeersList_step_file: "peers_json (PeersList_step pl e) = peers_json pl"
  by (cases e) (simp_all add: PeersList_update_file PeersList_incrementAge_file)

lemma PeersList_run_file: "peers_json (foldl PeersList_step pl es) = peers_json pl"
  by (induction es arbitrary: pl) (simp_all add: PeersList_step_file)

lemma map_of_hash_insert:
  "map_of (hash_insert u v xs) k = (if k = u then Some v else map_of xs k)"
  by (induction xs) (auto simp: hash_insert_def)

lemma map_of_age_instances:
  "map_of (fst (age_instances xs)) k =
     map_option (\<lambda>p. snd (PeerUser_incrementAge p)) (map_of xs k)"
  by (induction xs) (auto simp: Let_def split: prod.splits)

lemma unconfirmed_incrementAge: "unconfirmed p \<Longrightarrow> PeerUser_incrementAge p = (False, p)"
  by (simp add: unconfirmed_def PeerUser_incrementAge_def)

lemma peer_uuid_fromDatagram: "peer_uuid (PeerUser_fromDatagram d) = d_uuid d"
  by (simp add: PeerUser_fromDatagram_def updatePeerIcon_def peer_uuid_def Let_def)

lemma PeersList_update_other:
  "d_uuid d \<noteq> k \<Longrightarrow>
     map_of (m_instances (PeersList_update pl d fresh)) k = map_of (m_instances pl) k"
  by (auto simp: PeersList_update_def emit_signals_def Let_def map_of_hash_insert
        addPeerToList_def peer_uuid_fromDatagram split: option.splits prod.splits)

lemma PeersList_incrementAge_unconfirmed:
  "map_of (m_instances pl) k = Some p \<Longrightarrow> unconfirmed p \<Longrightarrow>
     map_of (m_instances (PeersList_incrementAge pl)) k = Some p"
  using map_of_age_instances [of "m_instances pl" k]
  by (cases "age_instances (m_instances pl)")
     (simp add: PeersList_incrementAge_def emit_signals_def unconfirmed_incrementAge)

lemma PeersList_run_unconfirmed:
  "map_of (m_instances pl) k = Some p \<Longrightarrow> unconfirmed p \<Longrightarrow>
   \<forall>d fresh. Datagram d fresh \<in> set es \<longrightarrow> d_uuid d \<noteq> k \<Longrightarrow>
     map_of (m_instances (foldl PeersList_step pl es)) k = Some p"
proof (induction es arbitrary: pl)
  case Nil
  then show ?case by simp
next
  case (Cons e es)
  have "map_of (m_instances (PeersList_step pl e)) k = Some p"
  proof (cases e)
    case (Datagram d fresh)
    then have "d_uuid d \<noteq> k" using Cons.prems(3) by auto
    then show ?thesis using Cons.prems(1) Datagram by (simp add: PeersList_update_other)
  next
    case AgingTick
    then show ?thesis
      using Cons.prems(1,2) by (simp add: PeersList_incrementAge_unconfirmed)
  qed
  moreover have "\<forall>d fresh. Datagram d fresh \<in> set es \<longrightarrow> d_uuid d \<noteq> k"
    using Cons.prems(3) by auto
  ultimately show ?case using Cons.IH [of "PeersList_step pl e"] Cons.prems(2) by simp
qed

lemma PeerUser_update_confirms:
  "m_info p \<noteq> None \<Longrightarrow> unconfirmed p \<Longrightarrow>
     fst (fst (PeerUser_update p d)) \<and> m_age (snd (fst (PeerUser_update p d))) = 0"
  by (auto simp: PeerUser_update_def updatePeerIcon_def unconfirmed_def Let_def
        split: option.splits prod.splits if_splits)

lemma PeersList_update_confirms:
  assumes "map_of (m_instances pl) k = Some p" "unconfirmed p" "m_info p \<noteq> None"
    "d_uuid d = k" "\<not> d_flagQuit d"
  shows "\<exists>p'. map_of (m_instances (PeersList_update pl d fresh)) k = Some p' \<and> m_age p' = 0 \<and>
           peerAdded k \<in> set (signals (PeersList_update pl d fresh))"
proof -
  obtain upd p' ic where u: "PeerUser_update p d = ((upd, p'), ic)"
    by (cases "PeerUser_update p d") auto
  from PeerUser_update_confirms [OF assms(3,2), of d] u have "upd" "m_age p' = 0" by simp_all
  then show ?thesis
    using assms u
    by (auto simp: PeersList_update_def emit_signals_def Let_def map_of_hash_insert)
qed

text \<open>
  Claim C8, as the code has it.  No datagram and no tick of the aging timer writes
  \<open>peers.json\<close>; the destructor of the peers list writes the serialisation of the whole
  table (when the file can be written).  Every peer that the constructor loads from the
  file is unconfirmed and has its information set; an unconfirmed peer stays as it is through every tick of the aging
  timer and every datagram of another identifier; and a datagram of its identifier that
  does not announce a departure resets its age to 0 and makes the list emit
  \<open>peerAdded\<close>.
\<close>

theorem PeersList_saved_at_shutdown_only:
  "peers_json (foldl PeersList_step pl es) = peers_json pl \<and>
   peers_json (PeersList_destroy pl True) = Some (map (User_save \<circ> snd) (m_instances pl)) \<and>
   (\<forall>e\<in>set (m_instances (PeersList_new icons ages localUserInfo disk)).
      unconfirmed (snd e) \<and> m_info (snd e) \<noteq> None) \<and>
   (map_of (m_instances pl) k = Some p \<and> unconfirmed p \<and>
    (\<forall>d fresh. Datagram d fresh \<in> set es \<longrightarrow> d_uuid d \<noteq> k) \<longrightarrow>
      map_of (m_instances (foldl PeersList_step pl es)) k = Some p) \<and>
   (map_of (m_instances pl) k = Some p \<and> unconfirmed p \<and> m_info p \<noteq> None \<and>
    d_uuid d = k \<and> \<not> d_flagQuit d \<longrightarrow>
      (\<exists>p'. map_of (m_instances (PeersList_update pl d fresh)) k = Some p' \<and> m_age p' = 0 \<and>
            peerAdded k \<in> set (signals (PeersList_update pl d fresh))))"
  using PeersList_run_unconfirmed [of pl k p es] PeersList_update_confirms [of pl k p d fresh]
    PeersList_new_unconfirmed [of icons ages localUserInfo disk]
  by (simp add: PeersList_run_file PeersList_destroy_def saveToFile_def)

lemma sample_list_eval:
  "m_instances sample_list =
     [(peer_id, \<lparr>u_valid = True, m_toBeSaved = False, m_age = AgeUnconfirmed,
        m_info = Some \<lparr>m_uuid = peer_id, m_firstName = ''Ada'', m_lastName = ''L'',
          m_ipv4Address = 0, m_dataPort = 0, m_iconPort = 0, m_icon = None,
          m_preferences = None\<rparr>\<rparr>)]"
  by code_simp

lemma sample_run_eval:
  "map_of (m_instances (foldl PeersList_step sample_list
       [AgingTick, Datagram other_datagram [], AgingTick])) peer_id =
     map_of (m_instances sample_list) peer_id"
  "map (m_age \<circ> snd) (m_instances (PeersList_update sample_list sample_datagram [])) = [0]"
  "signals (PeersList_update sample_list sample_datagram []) = [peerAdded peer_id]"
  "peers_json (foldl PeersList_step sample_list
       [AgingTick, Datagram other_datagram [], AgingTick]) = peers_json sample_list"
  by code_simp+

lemma sample_datagram_eval:
  "d_uuid other_datagram \<noteq> peer_id" "d_uuid sample_datagram = peer_id"
  "\<not> d_flagQuit sample_datagram"
  by code_simp+

theorem PeersList_saved_at_shutdown_only_witness:
  "map (unconfirmed \<circ> snd) (m_instances sample_list) = [True] \<and>
   peers_json (foldl PeersList_step sample_list
       [AgingTick, Datagram other_datagram [], AgingTick]) = peers_json sample_list \<and>
   map_of (m_instances (foldl PeersList_step sample_list
       [AgingTick, Datagram other_datagram [], AgingTick])) peer_id =
     map_of (m_instances sample_list) peer_id \<and>
   map (m_age \<circ> snd) (m_instances (PeersList_update sample_list sample_datagram [])) = [0] \<and>
   signals (PeersList_update sample_list sample_datagram []) = [peerAdded peer_id]"
  using PeersList_saved_at_shutdown_only
     [where pl = sample_list and es = "[AgingTick, Datagram other_datagram [], AgingTick]"
        and icons = "\<lambda>u h. None" and ages = "\<lambda>n. 0"
        and localUserInfo = sample_me and disk = "Some [sample_peer_json]"
        and k = peer_id and d = sample_datagram and fresh = "[]"
        and p = "snd (hd (m_instances sample_list))"]
  unfolding sample_list_def [symmetric]
  by (simp add: sample_list_eval sample_run_eval sample_datagram_eval unconfirmed_def)

text \<open>
  Claim C8 as stated fails: a datagram that inserts a new peer into an empty list changes
  the table and leaves the file as it was, so the file no longer is the serialisation of
  the table.
\<close>

theorem PeersList_not_saved_on_change:
  "m_instances (PeersList_update empty_list sample_datagram []) \<noteq> m_instances empty_list \<and>
   peers_json (PeersList_update empty_list sample_datagram []) = Some [] \<and>
   peers_json (PeersList_update empty_list sample_datagram []) \<noteq>
     Some (map (User_save \<circ> snd) (m_instances (PeersList_update empty_list sample_datagram [])))"
  by (simp add: empty_list_def PeersList_new_def PeersList_update_def sample_datagram_def
        sample_me_def emit_signals_def PeerUser_fromDatagram_def updatePeerIcon_def
        addPeerToList_def hash_insert_def peer_uuid_def same_names_def User_save_def Let_def
        peer_id_def)

section \<open>Claims about the discovery protocol\<close>

lemma tick_success:
  "sending s \<Longrightarrow> timer_tick s True = s\<lparr>m_errorCount := 0\<rparr>"
  by (simp add: sending_def timer_tick_def sendBufferedDatagram_def)

lemma tick_failure_below:
  "sending s \<Longrightarrow> m_errorCount s + 1 \<noteq> ERROR_THRESHOLD \<Longrightarrow>
     timer_tick s False = s\<lparr>m_errorCount := m_errorCount s + 1\<rparr>"
  by (simp add: sending_def timer_tick_def sendBufferedDatagram_def)

lemma tick_failure_threshold:
  "sending s \<Longrightarrow> m_errorCount s + 1 = ERROR_THRESHOLD \<Longrightarrow>
     timer_tick s False = gone_offline s"
  by (simp add: sending_def timer_tick_def sendBufferedDatagram_def gone_offline_def emit_def
        ERROR_THRESHOLD_def)

lemma ticks_when_offline: "\<not> m_timer_active s \<Longrightarrow> foldl timer_tick s rs = s"
  by (induction rs) (simp_all add: timer_tick_def)

lemma run_follows_count:
  "sending s \<Longrightarrow> m_errorCount s = int c \<Longrightarrow> c < 3 \<Longrightarrow>
     foldl timer_tick s rs =
       (case failures_run c rs of
          Some c' \<Rightarrow> s\<lparr>m_errorCount := int c'\<rparr>
        | None \<Rightarrow> gone_offline s)"
proof (induction rs arbitrary: s c)
  case Nil
  then show ?case by simp
next
  case (Cons ok rest)
  show ?case
  proof (cases ok)
    case True
    have s': "sending (s\<lparr>m_errorCount := 0\<rparr>)" using Cons.prems(1) by (simp add: sending_def)
    show ?thesis
      using Cons.IH [OF s', of 0] True tick_success [OF Cons.prems(1)]
      by (simp split: option.splits add: gone_offline_def)
  next
    case False
    show ?thesis
    proof (cases "Suc c = 3")
      case True
      then have "m_errorCount s + 1 = ERROR_THRESHOLD"
        using Cons.prems(2) by (simp add: ERROR_THRESHOLD_def)
      from tick_failure_threshold [OF Cons.prems(1) this]
      show ?thesis using \<open>\<not> ok\<close> True
        by (simp add: ticks_when_offline gone_offline_def)
    next
      case no: False
      then have ne: "m_errorCount s + 1 \<noteq> ERROR_THRESHOLD"
        using Cons.prems(2) by (simp add: ERROR_THRESHOLD_def)
      have s': "sending (s\<lparr>m_errorCount := m_errorCount s + 1\<rparr>)"
        using Cons.prems(1) by (simp add: sending_def)
      have c': "m_errorCount (s\<lparr>m_errorCount := m_errorCount s + 1\<rparr>) = int (Suc c)"
        using Cons.prems(2) by simp
      have lt: "Suc c < 3" using no Cons.prems(3) by simp
      show ?thesis
        using Cons.IH [OF s' c' lt] \<open>\<not> ok\<close> no tick_failure_below [OF Cons.prems(1) ne]
        by (simp split: option.splits add: gone_offline_def)
    qed
  qed
qed

lemma three_failures_True [simp]: "three_failures (True # xs) = three_failures xs"
  by (cases xs rule: three_failures.cases) simp_all

lemma three_failures_False_True [simp]:
  "three_failures (False # True # xs) = three_failures xs"
  by (cases xs) simp_all

lemma three_failures_False_False_True [simp]:
  "three_failures (False # False # True # xs) = three_failures xs"
  by simp

lemma failures_run_three_aux:
  "(failures_run 0 rs = None \<longleftrightarrow> three_failures rs) \<and>
   (failures_run (Suc 0) rs = None \<longleftrightarrow> three_failures (False # rs)) \<and>
   (failures_run (Suc (Suc 0)) rs = None \<longleftrightarrow> three_failures (False # False # rs))"
proof (induction rs)
  case Nil
  show ?case by simp
next
  case (Cons ok rest)
  then show ?case by (cases ok) simp_all
qed

lemma failures_run_three: "failures_run 0 rs = None \<longleftrightarrow> three_failures rs"
  using failures_run_three_aux [of rs] by simp

lemma failures_run_trailing_aux:
  "failures_run c rs = Some c' \<Longrightarrow>
     c' = (if list_all (\<lambda>ok. \<not> ok) rs then c + length rs else trailing_failures rs)"
proof (induction rs arbitrary: c)
  case Nil
  then show ?case by simp
next
  case (Cons ok rest)
  show ?case
  proof (cases ok)
    case True
    with Cons.prems have r: "failures_run 0 rest = Some c'" by simp
    from Cons.IH [OF r] True show ?thesis
      by (auto simp: trailing_failures_def takeWhile_append list_all_iff)
  next
    case False
    with Cons.prems have r: "failures_run (Suc c) rest = Some c'"
      by (simp split: if_splits)
    from Cons.IH [OF r] False show ?thesis
      by (auto simp: trailing_failures_def takeWhile_append list_all_iff)
  qed
qed

lemma failures_run_trailing:
  "failures_run 0 rs = Some c' \<Longrightarrow> c' = trailing_failures rs"
  using failures_run_trailing_aux [of 0 rs c']
  by (auto simp: trailing_failures_def list_all_iff takeWhile_eq_all_conv [THEN iffD2])

text \<open>
  Claim C7.  Let the protocol be online with its timer running, a valid datagram buffered
  and no error counted.  Along any run of send attempts with the given outcomes of the
  socket write, the protocol ends offline, with the timer stopped and the signals
  \<open>modeChanged(Offline)\<close> and \<open>error\<close> emitted once each, exactly when the outcomes
  contain three failures in a row; otherwise it is still online, has emitted nothing, and
  its error count is the number of failures at the end of the run.  In particular one
  success resets the count and each failure below the threshold adds one to it.
\<close>

theorem send_errors_three_in_a_row:
  assumes "m_mode s = Online" and "m_timer_active s" and "m_datagramBuffer s \<noteq> []"
    and "m_errorCount s = 0"
  shows "(three_failures rs \<longrightarrow>
            foldl timer_tick s rs =
              s\<lparr>m_timer_active := False, m_errorCount := 0, m_mode := Offline,
                emitted := emitted s @ [modeChanged Offline, error]\<rparr>) \<and>
         (\<not> three_failures rs \<longrightarrow>
            foldl timer_tick s rs = s\<lparr>m_errorCount := int (trailing_failures rs)\<rparr>) \<and>
         timer_tick (s\<lparr>m_errorCount := 1\<rparr>) True = s \<and>
         timer_tick (s\<lparr>m_errorCount := 2\<rparr>) True = s \<and>
         timer_tick s False = s\<lparr>m_errorCount := 1\<rparr> \<and>
         timer_tick (s\<lparr>m_errorCount := 1\<rparr>) False = s\<lparr>m_errorCount := 2\<rparr>"
proof -
  have snd: "sending s" using assms by (simp add: sending_def)
  have run: "foldl timer_tick s rs =
       (case failures_run 0 rs of
          Some c' \<Rightarrow> s\<lparr>m_errorCount := int c'\<rparr>
        | None \<Rightarrow> gone_offline s)"
    using run_follows_count [OF snd, of 0 rs] assms(4) by simp
  have a: "three_failures rs \<longrightarrow> foldl timer_tick s rs = gone_offline s"
    using run failures_run_three [of rs] by (simp split: option.splits)
  have b: "\<not> three_failures rs \<longrightarrow>
      foldl timer_tick s rs = s\<lparr>m_errorCount := int (trailing_failures rs)\<rparr>"
    using run failures_run_three [of rs] failures_run_trailing [of rs]
    by (auto split: option.splits)
  have c: "timer_tick (s\<lparr>m_errorCount := 1\<rparr>) True = s" "timer_tick (s\<lparr>m_errorCount := 2\<rparr>) True = s"
    using assms by (simp_all add: timer_tick_def sendBufferedDatagram_def)
  have d: "timer_tick s False = s\<lparr>m_errorCount := 1\<rparr>"
     "timer_tick (s\<lparr>m_errorCount := 1\<rparr>) False = s\<lparr>m_errorCount := 2\<rparr>"
    using assms by (simp_all add: timer_tick_def sendBufferedDatagram_def ERROR_THRESHOLD_def)
  show ?thesis using a b c d by (simp add: gone_offline_def)
qed
theorem send_errors_three_in_a_row_witness:
  "three_failures [False, True, False, False, False, True] \<and>
   foldl timer_tick sample_protocol [False, True, False, False, False, True] =
     sample_protocol\<lparr>m_timer_active := False, m_errorCount := 0, m_mode := Offline,
       emitted := [modeChanged Offline, error]\<rparr> \<and>
   \<not> three_failures [False, False, True, False] \<and>
   foldl timer_tick sample_protocol [False, False, True, False] =
     sample_protocol\<lparr>m_errorCount := 1\<rparr>"
proof -
  have h: "m_mode sample_protocol = Online" "m_timer_active sample_protocol"
    "m_datagramBuffer sample_protocol \<noteq> []" "m_errorCount sample_protocol = 0"
    by (simp_all add: sample_protocol_def)
  have e: "emitted sample_protocol = []" by (simp add: sample_protocol_def)
  have t: "trailing_failures [False, False, True, False] = 1"
    by (simp add: trailing_failures_def)
  show ?thesis
    using send_errors_three_in_a_row [OF h, of "[False, True, False, False, False, True]"]
      send_errors_three_in_a_row [OF h, of "[False, False, True, False]"] e t
    by simp
qed

section \<open>Claims about the receiver\<close>

lemma unat_ucast_32_64: "unat (ucast (len :: quint32) :: quint64) = unat len"
proof -
  have "unat len < 2 ^ 32" using unsigned_less [of len, where 'a = nat] by simp
  then have "unat len < 2 ^ 64" by simp
  then show ?thesis by (simp add: unsigned_ucast_eq take_bit_nat_eq_self)
qed

lemma chunk_too_long: "ucast (len :: quint32) > MAX_CHUNK_SIZE \<longleftrightarrow> len > 8192"
  by (simp add: MAX_CHUNK_SIZE_def word_less_nat_alt unat_ucast_32_64)

lemma read_chunk_length:
  "read_quint32 \<lparr>ds_bytes = write_quint32 len @ rest, ds_ok = True\<rparr> =
     (len, \<lparr>ds_bytes = rest, ds_ok = True\<rparr>)"
  by (rule read_write_quint32)

text \<open>
  Claim C4.  Let a session be in the status \<open>InTransfer\<close> with a file open, and let a
  \<open>CHUNK\<close> frame arrive whole.  If its length field is at most 8192, the frame is
  consumed, the handler returns true and the session stays in \<open>InTransfer\<close>; with
  length 0 nothing is written, and when the writer is sound and the write complete the data
  is appended to the file and counted.  If the length field exceeds 8192 the handler
  aborts the connection before reading any of the data: the session is \<open>Aborted\<close> and
  the file in transfer is dropped.
\<close>

theorem chunk_length_limit:
  assumes "r_status s = S_InTransfer" and "m_fileInTransfer s = Some w"
  shows "(len \<le> 8192 \<and> length data = unat len \<longrightarrow>
            (\<exists>s' w'.
               chunkCommand env s \<lparr>ds_bytes = write_quint32 len @ data @ rest, ds_ok = True\<rparr> =
                 (True, s', Some \<lparr>ds_bytes = rest, ds_ok = True\<rparr>) \<and>
               r_status s' = S_InTransfer \<and> m_fileInTransfer s' = Some w' \<and>
               (len = 0 \<longrightarrow> sf_tmpData (m_file w') = sf_tmpData (m_file w)) \<and>
               (\<not> m_error w \<and> sf_isOpen (m_file w) \<and> unat len \<le> unat (m_remainingBytes w) \<and>
                write_result env data = int (length data) \<longrightarrow>
                  sf_tmpData (m_file w') = sf_tmpData (m_file w) @ data \<and>
                  m_transferredBytes (m_transferInfo s') =
                    m_transferredBytes (m_transferInfo s) + ucast len))) \<and>
         (len > 8192 \<longrightarrow>
            chunkCommand env s \<lparr>ds_bytes = write_quint32 len @ rest, ds_ok = True\<rparr> =
              (False, abortConnection s, Some \<lparr>ds_bytes = rest, ds_ok = True\<rparr>) \<and>
            r_status (abortConnection s) = S_Aborted \<and>
            m_fileInTransfer (abortConnection s) = None)"
proof (intro conjI impI)
  assume a: "len \<le> 8192 \<and> length data = unat len"
  then have nl: "\<not> ucast len > MAX_CHUNK_SIZE" by (simp add: chunk_too_long not_less)
  have rd: "read_raw (unat len) \<lparr>ds_bytes = data @ rest, ds_ok = True\<rparr> =
      (data, \<lparr>ds_bytes = rest, ds_ok = True\<rparr>)"
    using a by (simp add: read_raw_exact)
  have ln: "(of_nat (length data) :: quint64) = ucast len"
    using a by (simp add: word_eq_iff_unsigned [where 'a = nat] unat_ucast_32_64 unat_of_nat)
  obtain ok w1 where p: "Writer_processNextDataChunk w data (write_result env data) = (ok, w1)"
    by (cases "Writer_processNextDataChunk w data (write_result env data)")
  have empty: "len = 0 \<longrightarrow> sf_tmpData (m_file w1) = sf_tmpData (m_file w)"
    using p a
    by (auto simp: Writer_processNextDataChunk_def QSaveFile_write_def Let_def split: if_splits)
  have full: "\<not> m_error w \<and> sf_isOpen (m_file w) \<and> unat len \<le> unat (m_remainingBytes w) \<and>
      write_result env data = int (length data) \<longrightarrow>
      ok \<and> sf_tmpData (m_file w1) = sf_tmpData (m_file w) @ data"
    using p a ln
    by (auto simp: Writer_processNextDataChunk_def QSaveFile_write_def Let_def
          word_less_nat_alt unat_ucast_32_64 split: if_splits)
  show "\<exists>s' w'.
      chunkCommand env s \<lparr>ds_bytes = write_quint32 len @ data @ rest, ds_ok = True\<rparr> =
        (True, s', Some \<lparr>ds_bytes = rest, ds_ok = True\<rparr>) \<and>
      r_status s' = S_InTransfer \<and> m_fileInTransfer s' = Some w' \<and>
      (len = 0 \<longrightarrow> sf_tmpData (m_file w') = sf_tmpData (m_file w)) \<and>
      (\<not> m_error w \<and> sf_isOpen (m_file w) \<and> unat len \<le> unat (m_remainingBytes w) \<and>
       write_result env data = int (length data) \<longrightarrow>
         sf_tmpData (m_file w') = sf_tmpData (m_file w) @ data \<and>
         m_transferredBytes (m_transferInfo s') =
           m_transferredBytes (m_transferInfo s) + ucast len)"
    using assms nl empty full
    by (auto simp: chunkCommand_def read_chunk_length rd p Let_def sendCommand_def send_def
          Writer_rollback_def QSaveFile_cancelWriting_def)
next
  assume b: "8192 < len"
  then have "ucast len > MAX_CHUNK_SIZE" by (simp add: chunk_too_long)
  then show "chunkCommand env s \<lparr>ds_bytes = write_quint32 len @ rest, ds_ok = True\<rparr> =
      (False, abortConnection s, Some \<lparr>ds_bytes = rest, ds_ok = True\<rparr>)"
    using assms by (simp add: chunkCommand_def read_chunk_length manageError_def)
next
  show "r_status (abortConnection s) = S_Aborted"
    using assms(1) by (simp add: abortConnection_def Let_def emitS_def setFileStatus_def sendCommand_def send_def)
next
  show "m_fileInTransfer (abortConnection s) = None"
    using assms(1) by (simp add: abortConnection_def Let_def emitS_def setFileStatus_def sendCommand_def send_def)
qed

theorem chunk_length_limit_witness:
  "r_status sample_receiver = S_InTransfer \<and>
   m_fileInTransfer sample_receiver = Some sample_writer \<and>
   (\<exists>s' w'.
      chunkCommand (sample_env (\<lambda>p. False) True) sample_receiver
        \<lparr>ds_bytes = write_quint32 0 @ [] @ [0x22], ds_ok = True\<rparr> =
        (True, s', Some \<lparr>ds_bytes = [0x22], ds_ok = True\<rparr>) \<and>
      r_status s' = S_InTransfer \<and> m_fileInTransfer s' = Some w' \<and>
      sf_tmpData (m_file w') = sf_tmpData (m_file sample_writer)) \<and>
   (\<exists>s' w'.
      chunkCommand (sample_env (\<lambda>p. False) True) sample_receiver
        \<lparr>ds_bytes = write_quint32 8192 @ replicate 8192 7 @ [], ds_ok = True\<rparr> =
        (True, s', Some \<lparr>ds_bytes = [], ds_ok = True\<rparr>) \<and>
      r_status s' = S_InTransfer \<and> m_fileInTransfer s' = Some w' \<and>
      sf_tmpData (m_file w') = sf_tmpData (m_file sample_writer) @ replicate 8192 7) \<and>
   chunkCommand (sample_env (\<lambda>p. False) True) sample_receiver
     \<lparr>ds_bytes = write_quint32 8193 @ replicate 8193 7, ds_ok = True\<rparr> =
     (False, abortConnection sample_receiver,
      Some \<lparr>ds_bytes = replicate 8193 7, ds_ok = True\<rparr>) \<and>
   r_status (abortConnection sample_receiver) = S_Aborted"
proof -
  have h: "r_status sample_receiver = S_InTransfer"
    "m_fileInTransfer sample_receiver = Some sample_writer"
    by (simp_all add: sample_receiver_def)
  have w: "\<not> m_error sample_writer" "sf_isOpen (m_file sample_writer)"
    "m_remainingBytes sample_writer = 10000"
    by (simp_all add: sample_writer_def sample_file_def FileInTransferWriter_new_def
          QSaveFile_closed_def Let_def)
  have e: "write_result (sample_env (\<lambda>p. False) True) = (\<lambda>b. int (length b))"
    by (simp add: sample_env_def)
  show ?thesis
    using h
      chunk_length_limit [OF h, of 0 "[]" "sample_env (\<lambda>p. False) True" "[0x22]"]
      chunk_length_limit [OF h, of 8192 "replicate 8192 7" "sample_env (\<lambda>p. False) True" "[]"]
      chunk_length_limit [OF h, of 8193 "[]" "sample_env (\<lambda>p. False) True" "replicate 8193 7"]
    by (simp add: w e) blast
qed


subsection \<open>The invariant of a receiver is kept by every event of an admissible run\<close>

lemma base_of_Some_live:
  "base_of r xs = Some b \<Longrightarrow>
     \<not> ended r \<and> r \<noteq> S_TransferCompleted \<and> \<not> paused b \<and> \<not> ended b \<and> b \<noteq> S_TransferCompleted"
  by (induction r xs rule: base_of.induct) (auto simp: ended_def paused_def split: if_splits)

lemma base_of_unpaused: "base_of r xs = Some b \<Longrightarrow> \<not> paused r \<Longrightarrow> xs = [] \<and> b = r"
  by (cases xs) (auto split: if_splits)

lemma base_of_paused_stack:
  "base_of r xs = Some b \<Longrightarrow> paused r \<Longrightarrow> \<exists>y ys. xs = y # ys \<and> base_of y ys = Some b"
  by (cases xs) (auto simp: paused_def split: if_splits)

lemma receiver_inv_live:
  "base_of (r_status s) (m_oldStatusStack s) = Some b \<Longrightarrow>
   receiver_inv s \<longleftrightarrow> moved_past_final s \<and> prevent_ok s \<and> phase_inv s b"
  by (frule base_of_Some_live) (simp add: receiver_inv_def)

lemma receiver_inv_ended:
  "ended (r_status s) \<Longrightarrow> receiver_inv s \<longleftrightarrow> moved_past_final s \<and> ended_inv s"
  by (simp add: receiver_inv_def)

lemma receiver_inv_cases:
  assumes "receiver_inv s"
  obtains (ended) "ended (r_status s)" "moved_past_final s" "ended_inv s"
  | (live) b where "\<not> ended (r_status s)" "base_of (r_status s) (m_oldStatusStack s) = Some b"
      "moved_past_final s" "prevent_ok s" "phase_inv s b"
  using assms by (auto simp: receiver_inv_def split: if_splits option.splits)

lemma toggle_fields [simp]:
  "m_files (togglePauseMode u s) = m_files s"
  "m_currentFile (togglePauseMode u s) = m_currentFile s"
  "m_transferInfo (togglePauseMode u s) = m_transferInfo s"
  "m_preventUserTogglePause (togglePauseMode u s) = m_preventUserTogglePause s"
  "m_fileInTransfer (togglePauseMode u s) = m_fileInTransfer s"
  "m_defaultDFAction (togglePauseMode u s) = m_defaultDFAction s"
  by (simp_all add: togglePauseMode_def emitS_def sendCommand_def send_def Let_def split: list.splits)

lemma toggle_preds [simp]:
  "moved_past_final (togglePauseMode u s) = moved_past_final s"
  "counters_done (togglePauseMode u s) = counters_done s"
  "phase_inv (togglePauseMode u s) b = phase_inv s b"
  by (simp_all add: moved_past_final_def files_before_def counters_done_def phase_inv_def
        in_transfer_inv_def before_transfer_inv_def)

lemma toggle_ended: "ended (r_status s) \<Longrightarrow> togglePauseMode u s = s"
  by (auto simp: togglePauseMode_def ended_def)

lemma toggle_base:
  assumes "\<not> ended (r_status s)" "base_of (r_status s) (m_oldStatusStack s) = Some b"
  shows "base_of (r_status (togglePauseMode u s)) (m_oldStatusStack (togglePauseMode u s)) = Some b"
  using assms
  by (cases "m_oldStatusStack s")
     (auto simp add: ended_def paused_def togglePauseMode_def emitS_def sendCommand_def send_def
       Let_def split: list.splits if_splits)

lemma toggle_prevent_ok:
  assumes "\<not> ended (r_status s)" "base_of (r_status s) (m_oldStatusStack s) = Some b"
    "prevent_ok s"
  shows "prevent_ok (togglePauseMode u s)"
  using assms
  by (cases "m_oldStatusStack s")
     (auto simp add: prevent_ok_def ended_def paused_def togglePauseMode_def emitS_def
       sendCommand_def send_def Let_def split: list.splits if_splits)

lemma toggle_inv: "receiver_inv s \<Longrightarrow> receiver_inv (togglePauseMode u s)"
proof (erule receiver_inv_cases)
  assume "ended (r_status s)" "moved_past_final s" "ended_inv s"
  then show ?thesis by (simp add: toggle_ended receiver_inv_ended)
next
  fix b
  assume a: "\<not> ended (r_status s)" "base_of (r_status s) (m_oldStatusStack s) = Some b"
      "moved_past_final s" "prevent_ok s" "phase_inv s b"
  show ?thesis
    using a toggle_base [OF a(1,2), of u] toggle_prevent_ok [OF a(1,2,4), of u]
    by (simp add: receiver_inv_live)
qed

lemma abort_unchanged:
  "r_status s = S_New \<or> r_status s = S_Closed \<or> r_status s = S_Aborted \<Longrightarrow> abortConnection s = s"
  by (auto simp: abortConnection_def)

lemma abort_fields:
  "m_currentFile (abortConnection s) = m_currentFile s"
  "length (m_files (abortConnection s)) = length (m_files s)"
  "i \<noteq> unat (m_currentFile s) \<Longrightarrow> m_files (abortConnection s) ! i = m_files s ! i"
  "m_totalFiles (m_transferInfo (abortConnection s)) = m_totalFiles (m_transferInfo s)"
  by (simp_all add: abortConnection_def Let_def emitS_def sendCommand_def send_def setFileStatus_def)

lemma abort_status:
  "r_status (abortConnection s) = (if r_status s = S_New \<or> r_status s = S_Closed then r_status s else S_Aborted)"
  by (simp add: abortConnection_def Let_def emitS_def sendCommand_def send_def setFileStatus_def)

lemma abort_counters:
  "r_status s \<noteq> S_New \<Longrightarrow> r_status s \<noteq> S_Closed \<Longrightarrow> r_status s \<noteq> S_Aborted \<Longrightarrow>
   counters_done (abortConnection s)"
  by (simp add: abortConnection_def Let_def emitS_def sendCommand_def send_def setFileStatus_def
        counters_done_def remainingFiles_def)

lemma abort_moved_past: "moved_past_final s \<Longrightarrow> moved_past_final (abortConnection s)"
  by (auto simp: moved_past_final_def files_before_def abort_fields)

lemma abort_current_failed:
  "r_status s \<noteq> S_New \<Longrightarrow> r_status s \<noteq> S_Closed \<Longrightarrow> r_status s \<noteq> S_Aborted \<Longrightarrow>
   m_currentFile s < m_totalFiles (m_transferInfo s) \<Longrightarrow> unat (m_currentFile s) < length (m_files s) \<Longrightarrow>
   m_status (m_files (abortConnection s) ! unat (m_currentFile s)) = TransferFailed"
  by (simp add: abortConnection_def Let_def emitS_def sendCommand_def send_def setFileStatus_def)

lemma abort_inv: "receiver_inv s \<Longrightarrow> receiver_inv (abortConnection s)"
proof (cases "r_status s = S_New \<or> r_status s = S_Closed \<or> r_status s = S_Aborted")
  case True
  assume "receiver_inv s"
  then show ?thesis using True by (simp add: abort_unchanged)
next
  case False
  assume "receiver_inv s"
  then have "moved_past_final s" by (simp add: receiver_inv_def)
  then show ?thesis
    using False abort_counters [of s] abort_current_failed [of s]
    by (simp add: receiver_inv_ended abort_status ended_def abort_moved_past ended_inv_def
          abort_fields)
qed

lemma close_fields [simp]:
  "m_files (closeConnection s) = m_files s"
  "m_currentFile (closeConnection s) = m_currentFile s"
  "m_transferInfo (closeConnection s) = m_transferInfo s"
  by (simp_all add: closeConnection_def socket_disconnected_def Let_def emitS_def sendCommand_def
        send_def)

lemma close_status:
  "r_status (closeConnection s) = S_Closing \<or> r_status (closeConnection s) = S_Closed \<or>
   closeConnection s = s \<and> (r_status s = S_New \<or> r_status s = S_Aborted)"
  by (simp add: closeConnection_def socket_disconnected_def Let_def emitS_def sendCommand_def
        send_def)

lemma close_preds [simp]:
  "moved_past_final (closeConnection s) = moved_past_final s"
  "counters_done (closeConnection s) = counters_done s"
  by (simp_all add: moved_past_final_def files_before_def counters_done_def)

lemma close_inv:
  assumes "moved_past_final s" "counters_done s" "r_status s \<noteq> S_New" "r_status s \<noteq> S_Aborted"
    "m_currentFile s = 0xFFFFFFFF \<or>
      (unat (m_currentFile s) = unat (m_totalFiles (m_transferInfo s)) \<and>
       length (m_files s) = unat (m_totalFiles (m_transferInfo s)))"
  shows "receiver_inv (closeConnection s)"
proof -
  have "r_status (closeConnection s) = S_Closing \<or> r_status (closeConnection s) = S_Closed"
    using close_status [of s] assms(3,4) by auto
  then show ?thesis
    using assms by (auto simp: receiver_inv_def ended_def ended_inv_def)
qed

lemma unat_sum_eq:
  fixes a b c :: "'a::len word"
  assumes "unat a + unat b = unat c"
  shows "a + b = c"
proof -
  have "unat c < 2 ^ LENGTH('a)" by (rule unsigned_less)
  then have "unat (a + b) = unat c"
    using assms by (simp add: unat_word_ariths(1))
  then show ?thesis by (simp add: word_unat_eq_iff)
qed

lemma move_inv:
  assumes "r_status s = S_InTransfer" "m_oldStatusStack s = []" "\<not> m_preventUserTogglePause s"
    "length (m_files s) = unat (m_totalFiles (m_transferInfo s))"
    "unat (m_currentFile s + 1) \<le> unat (m_totalFiles (m_transferInfo s))"
    "unat (m_transferredFiles (m_transferInfo s)) + unat (m_skippedFiles (m_transferInfo s)) =
       unat (m_currentFile s + 1)"
    "\<And>i. i < unat (m_currentFile s + 1) \<Longrightarrow> i < length (m_files s) \<Longrightarrow>
       final_status (m_status (m_files s ! i))"
  shows "receiver_inv (snd (moveToNextFile s))"
proof (cases "m_currentFile s + 1 = m_totalFiles (m_transferInfo s)")
  case True
  have "m_transferredFiles (m_transferInfo s) + m_skippedFiles (m_transferInfo s) =
        m_totalFiles (m_transferInfo s)"
    using assms(6) True by (simp add: unat_sum_eq)
  then show ?thesis
    using True assms(4,7)
    by (auto simp: moveToNextFile_def Let_def emitS_def intro!: close_inv
          simp: moved_past_final_def files_before_def counters_done_def)
next
  case False
  then have "unat (m_currentFile s + 1) < unat (m_totalFiles (m_transferInfo s))"
    using assms(5) by (simp add: word_unat_eq_iff)
  then show ?thesis
    using False assms
    by (auto simp: moveToNextFile_def Let_def receiver_inv_def ended_def prevent_ok_def
          phase_inv_def in_transfer_inv_def moved_past_final_def files_before_def)
qed

lemma receiver_inv_cong:
  assumes "r_status s' = r_status s" "m_oldStatusStack s' = m_oldStatusStack s"
   "m_preventUserTogglePause s' = m_preventUserTogglePause s"
   "m_totalFiles (m_transferInfo s') = m_totalFiles (m_transferInfo s)"
   "m_transferredFiles (m_transferInfo s') = m_transferredFiles (m_transferInfo s)"
   "m_skippedFiles (m_transferInfo s') = m_skippedFiles (m_transferInfo s)"
   "m_currentFile s' = m_currentFile s"
   "length (m_files s') = length (m_files s)"
   "\<And>i. i < files_before s \<or> r_status s = S_Aborted \<Longrightarrow> i < length (m_files s) \<Longrightarrow>
      m_files s' ! i = m_files s ! i"
  shows "receiver_inv s' = receiver_inv s"
proof -
  have "files_before s' = files_before s" using assms by (simp add: files_before_def)
  then have "moved_past_final s' = moved_past_final s"
    using assms(8,9) by (auto simp: moved_past_final_def)
  moreover have "prevent_ok s' = prevent_ok s" "\<And>b. phase_inv s' b = phase_inv s b"
    using assms(1-8)
    by (simp_all add: prevent_ok_def phase_inv_def in_transfer_inv_def before_transfer_inv_def)
  moreover have "ended_inv s' = ended_inv s"
    using assms(1-8) assms(9) [of "unat (m_currentFile s)"]
    by (auto simp: ended_inv_def counters_done_def)
  ultimately show ?thesis
    using assms(1,2) by (simp add: receiver_inv_def split: option.splits)
qed

lemma in_transfer_facts:
  assumes "receiver_inv s" "r_status s = S_InTransfer"
  shows "m_oldStatusStack s = []" "\<not> m_preventUserTogglePause s" "in_transfer_inv s"
    "moved_past_final s" "m_currentFile s \<noteq> 0xFFFFFFFF"
proof -
  from assms obtain b where b: "base_of (r_status s) (m_oldStatusStack s) = Some b"
    "moved_past_final s" "prevent_ok s" "phase_inv s b"
    by (auto elim!: receiver_inv_cases simp: ended_def)
  from base_of_unpaused [OF b(1)] assms(2)
  show st: "m_oldStatusStack s = []" and "in_transfer_inv s"
    using b(4) by (auto simp: paused_def phase_inv_def)
  show "\<not> m_preventUserTogglePause s" using b(3) assms(2) by (auto simp: prevent_ok_def)
  show "moved_past_final s" by fact
  have "unat (m_currentFile s) < 2 ^ 32 - 1"
    using \<open>in_transfer_inv s\<close> unsigned_less [of "m_totalFiles (m_transferInfo s)", where 'a = nat]
    by (simp add: in_transfer_inv_def)
  then show "m_currentFile s \<noteq> 0xFFFFFFFF" by auto
qed

lemma unat_succ_bounded:
  fixes c n :: "'a::len word"
  assumes "unat c < unat n"
  shows "unat (c + 1) = unat c + 1"
proof -
  have "unat n < 2 ^ LENGTH('a)" by (rule unsigned_less)
  then have "Suc (unat c) < 2 ^ LENGTH('a)" using assms by arith
  then have "unat c + unat (1 :: 'a word) < 2 ^ LENGTH('a)" by simp
  then show ?thesis by (simp add: unat_add_lem [THEN iffD1])
qed

lemma finish_file:
  assumes inv: "receiver_inv s" "r_status s = S_InTransfer"
    and same: "r_status s' = S_InTransfer" "m_oldStatusStack s' = m_oldStatusStack s"
      "m_preventUserTogglePause s' = m_preventUserTogglePause s"
      "m_currentFile s' = m_currentFile s"
      "m_totalFiles (m_transferInfo s') = m_totalFiles (m_transferInfo s)"
    and files: "m_files s' = (m_files s)[unat (m_currentFile s) := f]" "final_status (m_status f)"
    and counters:
      "(m_transferredFiles (m_transferInfo s') = m_transferredFiles (m_transferInfo s) + 1 \<and>
        m_skippedFiles (m_transferInfo s') = m_skippedFiles (m_transferInfo s)) \<or>
       (m_transferredFiles (m_transferInfo s') = m_transferredFiles (m_transferInfo s) \<and>
        m_skippedFiles (m_transferInfo s') = m_skippedFiles (m_transferInfo s) + 1)"
  shows "receiver_inv (snd (moveToNextFile s'))"
proof (rule move_inv)
  note f = in_transfer_facts [OF inv]
  let ?n = "m_totalFiles (m_transferInfo s)"
  have cur: "unat (m_currentFile s) < unat ?n" and len: "length (m_files s) = unat ?n"
    and sum: "unat (m_transferredFiles (m_transferInfo s)) + unat (m_skippedFiles (m_transferInfo s)) =
       unat (m_currentFile s)"
    using f(3) by (simp_all add: in_transfer_inv_def)
  have cur1: "unat (m_currentFile s + 1) = unat (m_currentFile s) + 1"
    using cur by (rule unat_succ_bounded)
  show "r_status s' = S_InTransfer" by fact
  show "m_oldStatusStack s' = []" using same f by simp
  show "\<not> m_preventUserTogglePause s'" using same f by simp
  show "length (m_files s') = unat (m_totalFiles (m_transferInfo s'))"
    using files same len by simp
  show "unat (m_currentFile s' + 1) \<le> unat (m_totalFiles (m_transferInfo s'))"
    using same cur cur1 by simp
  have t: "unat (m_transferredFiles (m_transferInfo s)) < unat ?n"
    and k: "unat (m_skippedFiles (m_transferInfo s)) < unat ?n"
    using sum cur by simp_all
  show "unat (m_transferredFiles (m_transferInfo s')) + unat (m_skippedFiles (m_transferInfo s')) =
       unat (m_currentFile s' + 1)"
    using counters unat_succ_bounded [OF t] unat_succ_bounded [OF k] sum cur1 same by auto
  fix i
  assume i: "i < unat (m_currentFile s' + 1)" "i < length (m_files s')"
  show "final_status (m_status (m_files s' ! i))"
  proof (cases "i = unat (m_currentFile s)")
    case True
    then show ?thesis using files i by simp
  next
    case False
    then have "i < unat (m_currentFile s)" using i cur1 same by simp
    then show ?thesis
      using f(4,5) i files False by (simp add: moved_past_final_def files_before_def)
  qed
qed

lemmas prim_defs = emitS_def send_def sendCommand_def setFileStatus_def currentFileInfo_def

lemma update_current_inv:
  "r_status s \<noteq> S_Aborted \<Longrightarrow>
   receiver_inv (s\<lparr>m_files := (m_files s)[unat (m_currentFile s) := f]\<rparr>) = receiver_inv s"
  by (rule receiver_inv_cong) (auto simp: files_before_def split: if_splits)

lemma irrelevant_updates_inv [simp]:
  "receiver_inv (s\<lparr>rx := a\<rparr>) = receiver_inv s"
  "receiver_inv (s\<lparr>tx := b\<rparr>) = receiver_inv s"
  "receiver_inv (s\<lparr>r_signals := c\<rparr>) = receiver_inv s"
  "receiver_inv (s\<lparr>m_fileInTransfer := d\<rparr>) = receiver_inv s"
  "receiver_inv (s\<lparr>m_defaultDFAction := e\<rparr>) = receiver_inv s"
  "receiver_inv (s\<lparr>m_peerUuid := g\<rparr>) = receiver_inv s"
  "receiver_inv (s\<lparr>socket_state := h\<rparr>) = receiver_inv s"
  by (rule receiver_inv_cong; simp)+

lemma acceptFileTransfer_inv:
  "receiver_inv s \<Longrightarrow> r_status s = S_InTransfer \<Longrightarrow> receiver_inv (acceptFileTransfer s)"
  using update_current_inv [of "s\<lparr>tx := tx s @ [Command_code ACCEPT]\<rparr>"]
  by (simp add: acceptFileTransfer_def prim_defs)

lemma rejectFileTransfer_inv:
  assumes "receiver_inv s" "r_status s = S_InTransfer"
  shows "receiver_inv (rejectFileTransfer s)"
  unfolding rejectFileTransfer_def Let_def
  by (rule finish_file [OF assms,
        where f = "(m_files s ! unat (m_currentFile s))\<lparr>m_status := TransferRejected\<rparr>"])
     (simp_all add: prim_defs final_status_def assms)

lemma performDFAction_inv:
  assumes "receiver_inv s" "r_status s = S_InTransfer"
  shows "receiver_inv (performDFAction env action s)"
proof -
  have "receiver_inv (acceptFileTransfer
          (s\<lparr>m_files := (m_files s)[unat (m_currentFile s) := f], m_fileInTransfer := Some w\<rparr>))"
    for f w
    using assms by (intro acceptFileTransfer_inv) (simp_all add: update_current_inv)
  then show ?thesis
    using assms
    by (simp add: performDFAction_def acceptFileTransfer_inv rejectFileTransfer_inv
          split: option.splits prod.splits)
qed

lemma manageError_inv: "receiver_inv s \<Longrightarrow> receiver_inv (manageError s)"
  by (simp add: manageError_def abort_inv)

lemma helloCommand_inv:
  "receiver_inv s \<Longrightarrow> helloCommand env s st = (cont, s', x) \<Longrightarrow> receiver_inv s'"
  by (auto simp: helloCommand_def Let_def prim_defs split: if_splits prod.splits
        intro!: manageError_inv)

lemma ackCommand_inv:
  assumes "receiver_inv s" "ackCommand s st = (cont, s', x)"
  shows "receiver_inv s'"
proof (cases "r_status s \<noteq> S_Connecting \<or> m_peerUuid s = None")
  case True
  then show ?thesis using assms by (auto simp: ackCommand_def intro!: manageError_inv)
next
  case False
  then have st: "r_status s = S_Connecting" by simp
  with assms(1) obtain b where b: "base_of (r_status s) (m_oldStatusStack s) = Some b"
    "moved_past_final s" "prevent_ok s" "phase_inv s b"
    by (auto elim!: receiver_inv_cases simp: ended_def)
  from base_of_unpaused [OF b(1)] st have "m_oldStatusStack s = []" "b = S_Connecting"
    by (auto simp: paused_def)
  then show ?thesis
    using assms(2) False b st
    by (auto simp: ackCommand_def prim_defs receiver_inv_def ended_def moved_past_final_def
          files_before_def prevent_ok_def phase_inv_def before_transfer_inv_def)
qed

lemma connected_facts:
  assumes "receiver_inv s" "r_status s = S_Connected"
  shows "m_oldStatusStack s = []" "\<not> m_preventUserTogglePause s"
    "before_transfer_inv s S_Connected" "moved_past_final s"
proof -
  from assms obtain b where b: "base_of (r_status s) (m_oldStatusStack s) = Some b"
    "moved_past_final s" "prevent_ok s" "phase_inv s b"
    by (auto elim!: receiver_inv_cases simp: ended_def)
  from base_of_unpaused [OF b(1)] assms(2)
  show "m_oldStatusStack s = []" and "before_transfer_inv s S_Connected"
    using b(4) by (auto simp: paused_def phase_inv_def)
  show "\<not> m_preventUserTogglePause s" using b(3) assms(2) by (auto simp: prevent_ok_def)
  show "moved_past_final s" by fact
qed

lemma length_of_nat_word:
  fixes n :: "'a::len word"
  assumes "k \<le> unat n"
  shows "unat (of_nat k :: 'a word) = k"
  using assms by (rule le_unat_uoi)

lemma pause_for_request_inv:
  assumes "receiver_inv s" "\<not> m_preventUserTogglePause s"
    "r_status s = S_Connected \<or> r_status s = S_InTransfer"
    "r_status s = S_Connected \<Longrightarrow> length (m_files s) = unat (m_totalFiles (m_transferInfo s))"
  shows "receiver_inv ((togglePauseMode True s)\<lparr>m_preventUserTogglePause := True\<rparr>)"
proof -
  from assms obtain b where b: "base_of (r_status s) (m_oldStatusStack s) = Some b"
    "moved_past_final s" "prevent_ok s" "phase_inv s b"
    by (auto elim!: receiver_inv_cases simp: ended_def)
  from base_of_unpaused [OF b(1)] assms(3) have e: "m_oldStatusStack s = []" "b = r_status s"
    by (auto simp: paused_def)
  have t: "r_status (togglePauseMode True s) = S_PausedByUser"
    "m_oldStatusStack (togglePauseMode True s) = [r_status s]"
    using assms(2,3) e
    by (auto simp: togglePauseMode_def Let_def prim_defs)
  have "moved_past_final ((togglePauseMode True s)\<lparr>m_preventUserTogglePause := True\<rparr>)"
    using b(2) by (simp add: moved_past_final_def files_before_def)
  moreover have "phase_inv ((togglePauseMode True s)\<lparr>m_preventUserTogglePause := True\<rparr>) b"
    using b(4) e assms(3,4)
    by (auto simp: phase_inv_def in_transfer_inv_def before_transfer_inv_def)
  ultimately show ?thesis
    using e t assms(3)
    by (auto simp: receiver_inv_def ended_def paused_def prevent_ok_def)
qed

lemma shareCommand_inv:
  assumes "receiver_inv s" "shareCommand s st = (cont, s', x)"
  shows "receiver_inv s'"
proof (cases "r_status s = S_Connected")
  case False
  then show ?thesis using assms by (auto simp: shareCommand_def intro!: manageError_inv)
next
  case True
  note f = connected_facts [OF assms(1) True]
  have len: "length (m_files s) \<le> unat (m_totalFiles (m_transferInfo s))"
    using f(3) by (simp add: before_transfer_inv_def)
  show ?thesis
  proof (cases "m_totalFiles (m_transferInfo s) = 0 \<and> m_shareMsg s = None")
    case start: True
    have "receiver_inv (s\<lparr>m_transferInfo := (m_transferInfo s)\<lparr>m_totalFiles := a, m_totalBytes := b\<rparr>,
                      m_shareMsg := c\<rparr>)" for a b c
      using f True start len
      by (auto simp: receiver_inv_def ended_def prevent_ok_def moved_past_final_def
          files_before_def phase_inv_def before_transfer_inv_def)
    then show ?thesis
      using assms True start
      by (auto simp: shareCommand_def Let_def split: prod.splits if_splits intro!: manageError_inv)
  next
    case nostart: False
    show ?thesis
    proof (cases "of_nat (length (m_files s)) = m_totalFiles (m_transferInfo s) \<and> m_shareMsg s \<noteq> None")
      case False
      then show ?thesis
        using assms True nostart by (auto simp: shareCommand_def intro!: manageError_inv)
    next
      case fin: True
      have eq: "length (m_files s) = unat (m_totalFiles (m_transferInfo s))"
        using length_of_nat_word [OF len] fin by simp
      have 1: "receiver_inv (s\<lparr>m_files := []\<rparr>)"
        using f True
        by (auto simp: receiver_inv_def ended_def prevent_ok_def moved_past_final_def
          files_before_def phase_inv_def before_transfer_inv_def)
      have 2: "receiver_inv ((togglePauseMode True s)\<lparr>m_preventUserTogglePause := True\<rparr>)"
        using assms(1) f(2) True eq by (intro pause_for_request_inv) simp_all
      show ?thesis
        using assms(2) True nostart fin 1 2
        by (auto simp: shareCommand_def Let_def emitS_def split: if_splits intro!: manageError_inv)
    qed
  qed
qed

lemma itemCommand_inv:
  assumes "receiver_inv s" "itemCommand env s st = (cont, s', x)"
  shows "receiver_inv s'"
proof (cases "r_status s \<noteq> S_Connected \<or>
         of_nat (length (m_files s)) \<ge> m_totalFiles (m_transferInfo s)")
  case True
  then show ?thesis using assms by (auto simp: itemCommand_def intro!: manageError_inv)
next
  case False
  then have st: "r_status s = S_Connected" by simp
  note f = connected_facts [OF assms(1) st]
  have len: "length (m_files s) \<le> unat (m_totalFiles (m_transferInfo s))"
    using f(3) by (simp add: before_transfer_inv_def)
  have "length (m_files s) < unat (m_totalFiles (m_transferInfo s))"
    using False length_of_nat_word [OF len] by (simp add: word_less_nat_alt not_le)
  then have "receiver_inv (s\<lparr>m_files := m_files s @ [item]\<rparr>)" for item
    using f st
    by (auto simp: receiver_inv_def ended_def prevent_ok_def moved_past_final_def
          files_before_def phase_inv_def before_transfer_inv_def)
  then show ?thesis
    using assms False
    by (auto simp: itemCommand_def Let_def split: prod.splits if_splits intro!: manageError_inv)
qed

lemma startCommand_inv:
  assumes "receiver_inv s" "startCommand env s st = (cont, s', x)"
  shows "receiver_inv s'"
proof (cases "r_status s \<noteq> S_InTransfer \<or> m_fileInTransfer s \<noteq> None")
  case True
  then show ?thesis using assms by (auto simp: startCommand_def intro!: manageError_inv)
next
  case False
  define s1 where "s1 = s\<lparr>m_fileInTransfer := Some (openWriter env (currentFileInfo s))\<rparr>"
  have 1: "receiver_inv s1" "r_status s1 = S_InTransfer"
    using assms(1) False by (simp_all add: s1_def)
  note f = in_transfer_facts [OF 1]
  have "receiver_inv ((togglePauseMode True s1)\<lparr>m_preventUserTogglePause := True\<rparr>)"
    using 1 f(2) by (intro pause_for_request_inv) simp_all
  then show ?thesis
    using assms(2) False 1
    by (auto simp: startCommand_def Let_def s1_def [symmetric] emitS_def split: if_splits
          intro!: rejectFileTransfer_inv acceptFileTransfer_inv performDFAction_inv)
qed

lemma skipCommand_inv:
  assumes "receiver_inv s" "skipCommand s st = (cont, s', x)"
  shows "receiver_inv s'"
proof (cases "r_status s \<noteq> S_InTransfer \<or> m_fileInTransfer s \<noteq> None")
  case True
  then show ?thesis using assms by (auto simp: skipCommand_def intro!: manageError_inv)
next
  case False
  then have st: "r_status s = S_InTransfer" by simp
  show ?thesis
    using assms(2) False unfolding skipCommand_def Let_def
    by (auto intro!: finish_file [OF assms(1) st,
        where f = "(m_files s ! unat (m_currentFile s))\<lparr>m_status := TransferFailed\<rparr>"]
        simp: prim_defs final_status_def st)
qed

lemma chunkCommand_inv:
  assumes "receiver_inv s" "chunkCommand env s st = (cont, s', x)"
  shows "receiver_inv s'"
proof -
  have "receiver_inv (s\<lparr>m_fileInTransfer := a,
          m_transferInfo := (m_transferInfo s)\<lparr>m_transferredBytes := b\<rparr>\<rparr>) = receiver_inv s" for a b
    by (rule receiver_inv_cong) simp_all
  then show ?thesis
    using assms
    by (auto simp: chunkCommand_def Let_def prim_defs
          split: option.splits prod.splits if_splits intro!: manageError_inv)
qed

lemma commitCommand_inv:
  assumes "receiver_inv s" "commitCommand env s st = (cont, s', x)"
  shows "receiver_inv s'"
proof (cases "r_status s \<noteq> S_InTransfer \<or> m_fileInTransfer s = None")
  case True
  then show ?thesis
    using assms by (auto simp: commitCommand_def split: option.splits intro!: manageError_inv)
next
  case False
  then have st: "r_status s = S_InTransfer" by simp
  have 1: "receiver_inv (snd (moveToNextFile
      (s\<lparr>tx := a, m_files := (m_files s)[unat (m_currentFile s) :=
             (m_files s ! unat (m_currentFile s))\<lparr>m_status := Transferred\<rparr>],
         m_transferInfo := (m_transferInfo s)
           \<lparr>m_transferredFiles := m_transferredFiles (m_transferInfo s) + 1\<rparr>,
         m_fileInTransfer := None\<rparr>)))" for a
    by (rule finish_file [OF assms(1) st,
          where f = "(m_files s ! unat (m_currentFile s))\<lparr>m_status := Transferred\<rparr>"])
       (simp_all add: final_status_def st)
  have 2: "receiver_inv (snd (moveToNextFile
      (s\<lparr>tx := a, m_files := (m_files s)[unat (m_currentFile s) :=
             (m_files s ! unat (m_currentFile s))\<lparr>m_status := TransferFailed\<rparr>],
         m_transferInfo := (m_transferInfo s)
           \<lparr>m_skippedFiles := m_skippedFiles (m_transferInfo s) + 1,
            m_skippedBytes := b\<rparr>,
         m_fileInTransfer := None\<rparr>)))" for a b
    by (rule finish_file [OF assms(1) st,
          where f = "(m_files s ! unat (m_currentFile s))\<lparr>m_status := TransferFailed\<rparr>"])
       (simp_all add: final_status_def st)
  show ?thesis
    using assms(2) False 1 2 unfolding commitCommand_def Let_def
    by (auto split: option.splits prod.splits if_splits simp: prim_defs)
qed

lemma rollbkCommand_inv:
  assumes "receiver_inv s" "rollbkCommand s st = (cont, s', x)"
  shows "receiver_inv s'"
proof (cases "r_status s \<noteq> S_InTransfer \<or> m_fileInTransfer s = None")
  case True
  then show ?thesis
    using assms by (auto simp: rollbkCommand_def split: option.splits intro!: manageError_inv)
next
  case False
  then have st: "r_status s = S_InTransfer" by simp
  show ?thesis
    using assms(2) False unfolding rollbkCommand_def Let_def
    by (auto split: option.splits prod.splits if_splits
        intro!: finish_file [OF assms(1) st,
          where f = "(m_files s ! unat (m_currentFile s))\<lparr>m_status := TransferFailed\<rparr>"]
        simp: prim_defs final_status_def st)
qed

lemma closeCommand_inv:
  assumes "receiver_inv s" "closeCommand s st = (cont, s', x)"
  shows "receiver_inv s'"
proof -
  have "r_status s \<noteq> S_TransferCompleted"
    using assms(1) by (auto elim!: receiver_inv_cases simp: ended_def dest: base_of_Some_live)
  moreover have "r_status s = S_Closing \<Longrightarrow> closeConnection s = s"
    by (simp add: closeConnection_def)
  ultimately show ?thesis
    using assms by (auto simp: closeCommand_def split: if_splits intro!: manageError_inv)
qed

lemma dispatch_inv:
  assumes "receiver_inv s" "dispatch env s c st = (cont, s', x)"
  shows "receiver_inv s'"
  using assms unfolding dispatch_def
  by (auto split: option.splits Command.splits
        intro: manageError_inv toggle_inv helloCommand_inv ackCommand_inv shareCommand_inv
          itemCommand_inv startCommand_inv skipCommand_inv chunkCommand_inv commitCommand_inv
          rollbkCommand_inv closeCommand_inv)

lemma readData_loop_inv: "receiver_inv s \<Longrightarrow> receiver_inv (readData_loop env s)"
proof (induction env s rule: readData_loop.induct)
  case (1 env s)
  show ?case
  proof (cases "rx s")
    case Nil
    then show ?thesis using 1(2) by (subst readData_loop.simps) simp
  next
    case (Cons command rest)
    obtain cont s' x where d: "dispatch env s command \<lparr>ds_bytes = rest, ds_ok = True\<rparr> = (cont, s', x)"
      by (cases "dispatch env s command \<lparr>ds_bytes = rest, ds_ok = True\<rparr>") auto
    have inv: "receiver_inv s'" using dispatch_inv [OF 1(2) d] .
    show ?thesis
    proof (cases x)
      case None
      then show ?thesis using Cons d inv by (subst readData_loop.simps) simp
    next
      case (Some st')
      have "receiver_inv (readData_loop env (s'\<lparr>rx := ds_bytes st'\<rparr>))"
        if "r_status s' \<noteq> S_Aborted" cont
        using 1(1) [OF Cons d [symmetric] _ Some that] inv
        by simp
      then show ?thesis
        using Cons d inv Some by (subst readData_loop.simps) simp
    qed
  qed
qed

lemma readData_inv: "receiver_inv s \<Longrightarrow> receiver_inv (readData env s)"
  by (simp add: readData_def readData_loop_inv)

lemma prevent_off_inv:
  "receiver_inv s \<Longrightarrow> receiver_inv (s\<lparr>m_preventUserTogglePause := False\<rparr>)"
  by (auto simp: receiver_inv_def moved_past_final_def files_before_def ended_inv_def
        counters_done_def prevent_ok_def phase_inv_def in_transfer_inv_def
        before_transfer_inv_def split: option.splits if_splits)

lemma awaiting_facts:
  assumes "receiver_inv s" "awaiting s b" "\<not> paused b"
  shows "r_status (togglePauseMode True (s\<lparr>m_preventUserTogglePause := False\<rparr>)) = b"
    "m_oldStatusStack (togglePauseMode True (s\<lparr>m_preventUserTogglePause := False\<rparr>)) = []"
    "receiver_inv (togglePauseMode True (s\<lparr>m_preventUserTogglePause := False\<rparr>))"
    "\<not> m_preventUserTogglePause (togglePauseMode True (s\<lparr>m_preventUserTogglePause := False\<rparr>))"
    "b = S_Connected \<Longrightarrow> length (m_files s) = unat (m_totalFiles (m_transferInfo s))"
proof -
  from assms(2) obtain xs where a: "r_status s = S_PausedByUser" "m_preventUserTogglePause s"
    "m_oldStatusStack s = b # xs"
    by (auto simp: awaiting_def split: list.splits)
  from assms(1) a obtain b' where b: "base_of (r_status s) (m_oldStatusStack s) = Some b'"
    "phase_inv s b'"
    by (auto elim!: receiver_inv_cases simp: ended_def)
  have "base_of b xs = Some b'" using b(1) a by (simp add: paused_def)
  from base_of_unpaused [OF this assms(3)] have e: "xs = []" "b' = b" by simp_all
  show "r_status (togglePauseMode True (s\<lparr>m_preventUserTogglePause := False\<rparr>)) = b"
    "m_oldStatusStack (togglePauseMode True (s\<lparr>m_preventUserTogglePause := False\<rparr>)) = []"
    using a e by (simp_all add: togglePauseMode_def Let_def prim_defs)
  show "receiver_inv (togglePauseMode True (s\<lparr>m_preventUserTogglePause := False\<rparr>))"
    using assms(1) by (intro toggle_inv prevent_off_inv)
  show "\<not> m_preventUserTogglePause (togglePauseMode True (s\<lparr>m_preventUserTogglePause := False\<rparr>))"
    by simp
  show "length (m_files s) = unat (m_totalFiles (m_transferInfo s))" if "b = S_Connected"
    using b(2) e a that by (simp add: phase_inv_def before_transfer_inv_def)
qed

lemma acceptSharingRequest_inv:
  assumes "receiver_inv s" "awaiting s S_Connected"
  shows "receiver_inv (acceptSharingRequest env message s)"
proof -
  define s1 where "s1 = togglePauseMode True (s\<lparr>m_preventUserTogglePause := False\<rparr>)"
  have p: "\<not> paused S_Connected" by (simp add: paused_def)
  note f = awaiting_facts [OF assms p, folded s1_def]
  note c = connected_facts [OF f(3) f(1)]
  have len: "length (m_files s1) = unat (m_totalFiles (m_transferInfo s1))"
    using f(5) by (simp add: s1_def)
  have "receiver_inv (snd (moveToNextFile (s1\<lparr>tx := a, r_status := S_InTransfer, r_signals := g\<rparr>)))" for a g
    using f c len
    by (intro move_inv) (simp_all add: before_transfer_inv_def)
  then show ?thesis
    using f(1,3)
    by (simp add: acceptSharingRequest_def s1_def [symmetric] Let_def prim_defs manageError_inv)
qed

lemma rejectSharingRequest_inv:
  assumes "receiver_inv s" "awaiting s S_Connected"
  shows "receiver_inv (rejectSharingRequest message s)"
proof -
  define s1 where "s1 = togglePauseMode True (s\<lparr>m_preventUserTogglePause := False\<rparr>)"
  have p: "\<not> paused S_Connected" by (simp add: paused_def)
  note f = awaiting_facts [OF assms p, folded s1_def]
  note c = connected_facts [OF f(3) f(1)]
  have "receiver_inv (closeConnection (s1\<lparr>tx := a, m_transferInfo := (m_transferInfo s1)
          \<lparr>m_skippedFiles := m_totalFiles (m_transferInfo s1), m_skippedBytes := g\<rparr>\<rparr>))" for a g
    using f c
    by (intro close_inv)
       (simp_all add: before_transfer_inv_def moved_past_final_def files_before_def counters_done_def)
  then show ?thesis
    using f(1)
    by (simp add: rejectSharingRequest_def s1_def [symmetric] Let_def prim_defs)
qed

lemma duplicatedFile_chosen_inv:
  assumes "receiver_inv s" "awaiting s S_InTransfer"
  shows "receiver_inv (duplicatedFile_chosen env action all s)"
proof -
  define s1 where "s1 = togglePauseMode True (s\<lparr>m_preventUserTogglePause := False\<rparr>)"
  have p: "\<not> paused S_InTransfer" by (simp add: paused_def)
  note f = awaiting_facts [OF assms p, folded s1_def]
  show ?thesis
    using f(1,3)
    by (simp add: duplicatedFile_chosen_def s1_def [symmetric] Let_def performDFAction_inv)
qed

lemma socket_disconnected_inv: "receiver_inv s \<Longrightarrow> receiver_inv (socket_disconnected s)"
  by (auto simp: socket_disconnected_def prim_defs receiver_inv_def ended_def ended_inv_def
        moved_past_final_def files_before_def counters_done_def)


lemma connecting_inv:
  assumes "receiver_inv s" "r_status s = S_New"
  shows "receiver_inv (s\<lparr>r_status := S_Connecting\<rparr>)"
proof -
  from assms obtain b where b: "base_of (r_status s) (m_oldStatusStack s) = Some b"
    "moved_past_final s" "prevent_ok s" "phase_inv s b"
    by (auto elim!: receiver_inv_cases simp: ended_def)
  from base_of_unpaused [OF b(1)] assms(2) have "m_oldStatusStack s = []" "b = S_New"
    by (auto simp: paused_def)
  then show ?thesis
    using b assms(2)
    by (auto simp: receiver_inv_def ended_def moved_past_final_def
          files_before_def prevent_ok_def phase_inv_def before_transfer_inv_def)
qed

lemma step_inv:
  assumes "receiver_inv s" "admissible s e"
  shows "receiver_inv (step s e)"
proof (cases e)
  case (Pair env ev)
  show ?thesis
    using assms unfolding Pair
    by (cases ev)
       (auto simp: prim_defs intro!: readData_inv connecting_inv acceptSharingRequest_inv
          rejectSharingRequest_inv duplicatedFile_chosen_inv toggle_inv abort_inv
          manageError_inv prevent_off_inv socket_disconnected_inv)
qed

lemma run_inv:
  "receiver_inv s \<Longrightarrow> admissible_run s es \<Longrightarrow> receiver_inv (foldl step s es)"
  by (induction es arbitrary: s) (auto intro: step_inv)




lemma declared_bytes_sizes:
  "map m_size fs' = map m_size fs \<Longrightarrow> declared_bytes (take k fs') = declared_bytes (take k fs)"
proof -
  assume "map m_size fs' = map m_size fs"
  then have "map m_size (take k fs') = map m_size (take k fs)" by (simp add: take_map [symmetric])
  then have "map (unat \<circ> m_size) (take k fs') = map (unat \<circ> m_size) (take k fs)"
    by (metis map_map)
  then show ?thesis by (simp add: declared_bytes_def comp_def)
qed

lemma declared_bytes_sizes_all:
  "map m_size fs' = map m_size fs \<Longrightarrow> declared_bytes fs' = declared_bytes fs"
  using declared_bytes_sizes [of fs' fs "max (length fs) (length fs')"] by simp



lemma bytes_inv_cong:
  assumes "ended (r_status s') = ended (r_status s)"
   "m_preventUserTogglePause s' = m_preventUserTogglePause s"
   "m_totalFiles (m_transferInfo s') = m_totalFiles (m_transferInfo s)"
   "m_totalBytes (m_transferInfo s') = m_totalBytes (m_transferInfo s)"
   "m_transferredBytes (m_transferInfo s') = m_transferredBytes (m_transferInfo s)"
   "m_currentFile s' = m_currentFile s"
   "map m_size (m_files s') = map m_size (m_files s)"
   "m_fileInTransfer s' = m_fileInTransfer s"
  shows "bytes_inv s' = bytes_inv s"
proof -
  note d = declared_bytes_sizes_all [OF assms(7)] declared_bytes_sizes [OF assms(7)]
  have "bytes_bound s' = bytes_bound s"
    unfolding bytes_bound_def d assms(2-8) ..
  moreover have "bytes_live s' = bytes_live s"
    unfolding bytes_live_def writer_credit_def files_started_def d assms(2-8) ..
  ultimately show ?thesis unfolding bytes_inv_def assms(1) by simp
qed














lemma close_fields2 [simp]:
  "m_preventUserTogglePause (closeConnection s) = m_preventUserTogglePause s"
  "m_fileInTransfer (closeConnection s) = m_fileInTransfer s"
  by (simp_all add: closeConnection_def socket_disconnected_def Let_def prim_defs)
















lemma irrelevant_updates_bytes [simp]:
  "bytes_inv (s\<lparr>rx := a\<rparr>) = bytes_inv s"
  "bytes_inv (s\<lparr>tx := b\<rparr>) = bytes_inv s"
  "bytes_inv (s\<lparr>r_signals := c\<rparr>) = bytes_inv s"
  "bytes_inv (s\<lparr>m_defaultDFAction := e\<rparr>) = bytes_inv s"
  "bytes_inv (s\<lparr>m_peerUuid := g\<rparr>) = bytes_inv s"
  "bytes_inv (s\<lparr>socket_state := h\<rparr>) = bytes_inv s"
  by (rule bytes_inv_cong; simp)+

lemma irrelevant_updates_full [simp]:
  "full_inv (s\<lparr>rx := a\<rparr>) = full_inv s"
  "full_inv (s\<lparr>tx := b\<rparr>) = full_inv s"
  "full_inv (s\<lparr>r_signals := c\<rparr>) = full_inv s"
  "full_inv (s\<lparr>m_defaultDFAction := e\<rparr>) = full_inv s"
  "full_inv (s\<lparr>m_peerUuid := g\<rparr>) = full_inv s"
  "full_inv (s\<lparr>socket_state := h\<rparr>) = full_inv s"
  by (simp_all add: full_inv_def)
































section \<open>KeepBoth (performDFAction)\<close>

lemma take_marker_text:
  "take_marker cs = Some (loc, n, text, rest) \<Longrightarrow> CHR ''%'' # cs = text @ rest"
  by (cases cs)
     (auto simp: take_marker_def Let_def split: list.splits option.splits if_splits)

lemma tokens_text: "concat (map token_text (arg_tokens s)) = s"
  by (induction s rule: arg_tokens.induct)
     (auto simp: arg_tokens.simps split: option.splits dest: take_marker_text)

lemma tokens_plain:
  "CHR ''%'' \<notin> set xs \<Longrightarrow> arg_tokens (xs @ ys) = map Lit xs @ arg_tokens ys"
  by (induction xs) (auto simp: arg_tokens.simps)

lemma replace_plain:
  "concat (map (replace_token m a la) (map Lit xs)) = xs"
  "concat (map (replace_token m a la \<circ> Lit) xs) = xs"
  by (induction xs) auto

lemma replace_others:
  "m \<notin> set (marker_numbers ts) \<Longrightarrow>
     concat (map (replace_token m a la) ts) = concat (map token_text ts)"
  by (induction ts rule: marker_numbers.induct) auto

lemma marker_numbers_plain [simp]: "marker_numbers (map Lit xs @ ts) = marker_numbers ts"
  by (induction xs) auto

lemma fold_min_least: "\<forall>n\<in>set ns. k < n \<Longrightarrow> fold min ns k = (k :: nat)"
  by (induction ns) (auto simp: min_def)

lemma take_marker_single:
  assumes "digitValue d = Some k" "tail = [] \<or> digitValue (hd tail) = None"
  shows "take_marker (d # tail) = Some (False, k, [CHR ''%'', d], tail)"
proof -
  have "d \<noteq> CHR ''L''" using assms(1) by (auto simp: digitValue_def split: if_splits)
  then show ?thesis
    using assms by (cases tail) (auto simp: take_marker_def Let_def)
qed

lemma arg_first_marker:
  assumes "CHR ''%'' \<notin> set pre" "digitValue d = Some k"
    "tail = [] \<or> digitValue (hd tail) = None"
    "\<forall>n\<in>set (marker_numbers (arg_tokens tail)). k < n"
  shows "QString_arg (pre @ CHR ''%'' # d # tail) a la = pre @ a @ tail"
proof -
  have t: "arg_tokens (pre @ CHR ''%'' # d # tail) =
      map Lit pre @ Marker False k [CHR ''%'', d] # arg_tokens tail"
    using assms(1) take_marker_single [OF assms(2,3)]
    by (simp add: tokens_plain arg_tokens.simps)
  have "k \<notin> set (marker_numbers (arg_tokens tail))" using assms(4) by auto
  then have "concat (map (replace_token k a la) (arg_tokens tail)) = tail"
    by (simp add: replace_others tokens_text)
  then show ?thesis
    unfolding QString_arg_def t
    by (simp add: fold_min_least [OF assms(4)] replace_plain)
qed

lemma digit_values:
  "digitValue CHR ''1'' = Some 1" "digitValue CHR ''2'' = Some 2"
  "digitValue CHR ''3'' = Some 3" "digitValue CHR ''4'' = Some 4"
  "digitValue CHR ''/'' = None" "digitValue CHR ''_'' = None" "digitValue CHR ''.'' = None"
  by (simp_all add: digitValue_def)

lemma template_tails:
  "marker_numbers (arg_tokens ''/.%2_%3'') = [2, 3]"
  "marker_numbers (arg_tokens ''_%3'') = [3]"
  "marker_numbers (arg_tokens ''/%2_%3'') = [2, 3]"
  "marker_numbers (arg_tokens ''/%2_%3.%4'') = [2, 3, 4]"
  "marker_numbers (arg_tokens ''_%3.%4'') = [3, 4]"
  "marker_numbers (arg_tokens ''.%4'') = [4]"
  by code_simp+

lemma digit_plain: "k < 10 \<Longrightarrow> digit k \<noteq> CHR ''%''"
proof
  assume k: "k < 10" and "digit k = CHR ''%''"
  then have "of_char (digit k) = (of_char CHR ''%'' :: nat)" by simp
  then show False using k by (simp add: digit_def)
qed

lemma decimal_plain: "n < 256 \<Longrightarrow> CHR ''%'' \<notin> set (decimal n)"
proof -
  assume n: "n < 256"
  have "n div 100 < 10" "n mod 10 < 10" "n div 10 mod 10 < 10" "n < 100 \<Longrightarrow> n div 10 < 10"
    using n by simp_all
  then have "digit (n div 100) \<noteq> CHR ''%''" "digit (n mod 10) \<noteq> CHR ''%''"
    "digit (n div 10 mod 10) \<noteq> CHR ''%''" "n < 100 \<Longrightarrow> digit (n div 10) \<noteq> CHR ''%''"
    "n < 10 \<Longrightarrow> digit n \<noteq> CHR ''%''"
    by (simp_all add: digit_plain)
  then show ?thesis by (auto simp: decimal_def)
qed

lemma newPath_plain:
  assumes "CHR ''%'' \<notin> set path" "CHR ''%'' \<notin> set name" "CHR ''%'' \<notin> set ext"
  shows "newPath env path name ext c = candidate_name path name ext (unat c)"
proof -
  have c: "CHR ''%'' \<notin> set (decimal (unat c))"
    using unsigned_less [of c, where 'a = nat] by (intro decimal_plain) simp
  have 1: "arg_string (''%1'' @ tail) path = path @ tail"
    if "tail = [] \<or> digitValue (hd tail) = None"
      "\<forall>n\<in>set (marker_numbers (arg_tokens tail)). 1 < n" for tail
    using arg_first_marker [of "[]" "CHR ''1''" 1 tail path path] that
    by (simp add: arg_string_def digit_values arg_tokens.simps(1))
  show ?thesis
  proof (cases "name = []")
    case True
    have a: "arg_string ''%1/.%2_%3'' path = path @ ''/.%2_%3''"
      using 1 [of "''/.%2_%3''"] by (simp add: digit_values template_tails)
    have b: "arg_string (path @ ''/.%2_%3'') ext = (path @ ''/.'') @ ext @ ''_%3''"
      using arg_first_marker [of "path @ ''/.''" "CHR ''2''" 2 "''_%3''" ext ext] assms
      by (simp add: arg_string_def digit_values template_tails)
    have d: "arg_int env ((path @ ''/.'') @ ext @ ''_%3'') (unat c) =
        (path @ ''/.'' @ ext @ ''_'') @ decimal (unat c) @ []"
      using arg_first_marker [of "path @ ''/.'' @ ext @ ''_''" "CHR ''3''" 3 "[]"
          "decimal (unat c)" "locale_toString env (unat c)"] assms
      by (simp add: arg_int_def digit_values arg_tokens.simps(1))
    show ?thesis using True a b d by (simp add: newPath_def candidate_name_def)
  next
    case False
    show ?thesis
    proof (cases "ext = []")
      case True
      have a: "arg_string ''%1/%2_%3'' path = path @ ''/%2_%3''"
        using 1 [of "''/%2_%3''"] by (simp add: digit_values template_tails)
      have b: "arg_string (path @ ''/%2_%3'') name = (path @ ''/'') @ name @ ''_%3''"
        using arg_first_marker [of "path @ ''/''" "CHR ''2''" 2 "''_%3''" name name] assms
        by (simp add: arg_string_def digit_values template_tails)
      have d: "arg_int env ((path @ ''/'') @ name @ ''_%3'') (unat c) =
          (path @ ''/'' @ name @ ''_'') @ decimal (unat c) @ []"
        using arg_first_marker [of "path @ ''/'' @ name @ ''_''" "CHR ''3''" 3 "[]"
            "decimal (unat c)" "locale_toString env (unat c)"] assms
        by (simp add: arg_int_def digit_values arg_tokens.simps(1))
      show ?thesis using True False a b d by (simp add: newPath_def candidate_name_def)
    next
      case ext: False
      have a: "arg_string ''%1/%2_%3.%4'' path = path @ ''/%2_%3.%4''"
        using 1 [of "''/%2_%3.%4''"] by (simp add: digit_values template_tails)
      have b: "arg_string (path @ ''/%2_%3.%4'') name = (path @ ''/'') @ name @ ''_%3.%4''"
        using arg_first_marker [of "path @ ''/''" "CHR ''2''" 2 "''_%3.%4''" name name] assms
        by (simp add: arg_string_def digit_values template_tails)
      have d: "arg_int env ((path @ ''/'') @ name @ ''_%3.%4'') (unat c) =
          (path @ ''/'' @ name @ ''_'') @ decimal (unat c) @ ''.%4''"
        using arg_first_marker [of "path @ ''/'' @ name @ ''_''" "CHR ''3''" 3 "''.%4''"
            "decimal (unat c)" "locale_toString env (unat c)"] assms
        by (simp add: arg_int_def digit_values template_tails)
      have e: "arg_string ((path @ ''/'' @ name @ ''_'') @ decimal (unat c) @ ''.%4'') ext =
          (path @ ''/'' @ name @ ''_'' @ decimal (unat c) @ ''.'') @ ext @ []"
        using arg_first_marker [of "path @ ''/'' @ name @ ''_'' @ decimal (unat c) @ ''.''"
            "CHR ''4''" 4 "[]" ext ext] assms c
        by (simp add: arg_string_def digit_values arg_tokens.simps(1))
      show ?thesis using False ext a b d e by (simp add: newPath_def candidate_name_def)
    qed
  qed
qed

lemma marker_in_name:
  "newPath env ''.'' ''a%1'' ''txt'' 1 = ''./a1_txt.%4''"
  "candidate_name ''.'' ''a%1'' ''txt'' 1 = ''./a%1_1.txt''"
  by code_simp+

lemma keepBoth_loop_from:
  "0 < k \<Longrightarrow> k \<le> 256 \<Longrightarrow>
     keepBoth_loop env f (of_nat k) = keepBoth_first env f [k ..< 256]"
proof (induction "256 - k" arbitrary: k)
  case 0
  then have k: "k = 256" by simp
  have "(of_nat k :: quint8) = 0" unfolding k by simp
  then have "keepBoth_loop env f (of_nat k) = None"
    by (subst keepBoth_loop.simps) simp
  then show ?case by (simp add: keepBoth_first_def k)
next
  case (Suc n)
  then have lt: "k < 256" by simp
  have "unat (of_nat k :: quint8) = k" using lt by (simp add: unat_of_nat)
  then have nz: "(of_nat k :: quint8) \<noteq> 0"
    using Suc.prems(1) by auto
  have up: "[k ..< 256] = k # [Suc k ..< 256]" using lt by (simp add: upt_conv_Cons)
  have ih: "keepBoth_loop env f (of_nat (Suc k)) = keepBoth_first env f [Suc k ..< 256]"
    using Suc.hyps(1) [of "Suc k"] Suc.hyps(2) lt by simp
  have s: "(of_nat k :: quint8) + 1 = of_nat (Suc k)" by simp
  show ?case
    apply (subst keepBoth_loop.simps)
    apply (simp only: nz if_False Let_def s ih up)
    apply (simp add: keepBoth_first_def stop_at_def)
    done
qed

lemma keepBoth_first_Some:
  assumes "keepBoth_first env f [1 ..< 256] = Some (accepted, writer)"
  shows "\<exists>k. 1 \<le> k \<and> k < 256 \<and> accepted = newFile env f (of_nat k) \<and>
           writer = openWriter env (newFile env f (of_nat k)) \<and>
           \<not> m_error writer \<and> \<not> m_exists writer \<and>
           (\<forall>j. 1 \<le> j \<and> j < k \<longrightarrow> \<not> stop_at env f j)"
proof -
  from assms obtain k where f: "find (stop_at env f) [1 ..< 256] = Some k"
    and ne: "\<not> m_error (openWriter env (newFile env f (of_nat k)))"
    and r: "accepted = newFile env f (of_nat k)" "writer = openWriter env (newFile env f (of_nat k))"
    by (auto simp: keepBoth_first_def split: option.splits if_splits)
  from f obtain i where i: "i < length [1 ..< 256 :: nat]" "stop_at env f ([1 ..< 256] ! i)"
    "k = [1 ..< 256] ! i" "\<forall>j<i. \<not> stop_at env f ([1 ..< 256] ! j)"
    unfolding find_Some_iff by blast
  have k: "k = 1 + i" "i < 255" using i(1,3) by simp_all
  have first: "\<forall>j. 1 \<le> j \<and> j < k \<longrightarrow> \<not> stop_at env f j"
  proof (intro allI impI)
    fix j assume j: "1 \<le> j \<and> j < k"
    then have "j - 1 < i" using k by arith
    with i(4) have "\<not> stop_at env f ([1 ..< 256] ! (j - 1))" by blast
    moreover have "[1 ..< 256] ! (j - 1) = j" using j k by simp
    ultimately show "\<not> stop_at env f j" by simp
  qed
  have "\<not> m_exists writer" using i(2) ne r(2) k by (simp add: stop_at_def i(3))
  with ne r first k show ?thesis by auto
qed

lemma keepBoth_first_None:
  assumes "keepBoth_first env f [1 ..< 256] = None"
  shows "(\<forall>k. 1 \<le> k \<and> k < 256 \<longrightarrow> \<not> stop_at env f k) \<or>
         (\<exists>k. 1 \<le> k \<and> k < 256 \<and> m_error (openWriter env (newFile env f (of_nat k))) \<and>
              (\<forall>j. 1 \<le> j \<and> j < k \<longrightarrow> \<not> stop_at env f j))"
proof (cases "find (stop_at env f) [1 ..< 256]")
  case None
  then have "\<forall>k. 1 \<le> k \<and> k < 256 \<longrightarrow> \<not> stop_at env f k"
    by (auto simp: find_None_iff)
  then show ?thesis by blast
next
  case (Some k)
  then have e: "m_error (openWriter env (newFile env f (of_nat k)))"
    using assms by (simp add: keepBoth_first_def split: if_splits)
  from Some obtain i where i: "i < length [1 ..< 256 :: nat]"
    "k = [1 ..< 256] ! i" "\<forall>j<i. \<not> stop_at env f ([1 ..< 256] ! j)"
    unfolding find_Some_iff by blast
  have k: "k = 1 + i" "i < 255" using i(1,2) by simp_all
  have first: "\<forall>j. 1 \<le> j \<and> j < k \<longrightarrow> \<not> stop_at env f j"
  proof (intro allI impI)
    fix j assume j: "1 \<le> j \<and> j < k"
    then have "j - 1 < i" using k by arith
    with i(3) have "\<not> stop_at env f ([1 ..< 256] ! (j - 1))" by blast
    moreover have "[1 ..< 256] ! (j - 1) = j" using j k by simp
    ultimately show "\<not> stop_at env f j" by simp
  qed
  from e first k show ?thesis by auto
qed


lemma move_fields:
  "m_files (snd (moveToNextFile s)) = m_files s"
  "m_fileInTransfer (snd (moveToNextFile s)) = m_fileInTransfer s"
  "m_currentFile (snd (moveToNextFile s)) = m_currentFile s + 1"
  "m_skippedFiles (m_transferInfo (snd (moveToNextFile s))) = m_skippedFiles (m_transferInfo s)"
  "m_transferredFiles (m_transferInfo (snd (moveToNextFile s))) =
     m_transferredFiles (m_transferInfo s)"
  "m_skippedBytes (m_transferInfo (snd (moveToNextFile s))) = m_skippedBytes (m_transferInfo s)"
  "take (length (tx s)) (tx (snd (moveToNextFile s))) = tx s"
  by (simp_all add: moveToNextFile_def closeConnection_def socket_disconnected_def Let_def
        emitS_def sendCommand_def send_def)

lemma rejectFileTransfer_effects:
  assumes "unat (m_currentFile s) < length (m_files s)"
  shows "m_files (rejectFileTransfer s) =
           (m_files s)[unat (m_currentFile s) := (currentFileInfo s)\<lparr>m_status := TransferRejected\<rparr>]"
    "m_fileInTransfer (rejectFileTransfer s) = None"
    "take (Suc (length (tx s))) (tx (rejectFileTransfer s)) = tx s @ [Command_code REJECT]"
    "m_skippedFiles (m_transferInfo (rejectFileTransfer s)) =
       m_skippedFiles (m_transferInfo s) + 1"
    "m_transferredFiles (m_transferInfo (rejectFileTransfer s)) =
       m_transferredFiles (m_transferInfo s)"
    "m_skippedBytes (m_transferInfo (rejectFileTransfer s)) =
       m_skippedBytes (m_transferInfo s) + m_size (currentFileInfo s)"
    "m_currentFile (rejectFileTransfer s) = m_currentFile s + 1"
proof -
  define s2 where "s2 =
    (let s1 = setFileStatus TransferRejected ((sendCommand REJECT s)\<lparr>m_fileInTransfer := None\<rparr>);
         t = m_transferInfo s1
     in s1\<lparr>m_transferInfo :=
            t\<lparr>m_skippedFiles := m_skippedFiles t + 1,
              m_skippedBytes := m_skippedBytes t + m_size (currentFileInfo s1)\<rparr>\<rparr>)"
  have r: "rejectFileTransfer s = snd (moveToNextFile s2)"
    by (simp add: rejectFileTransfer_def s2_def Let_def)
  have tx2: "tx s2 = tx s @ [Command_code REJECT]"
    by (simp add: s2_def Let_def setFileStatus_def sendCommand_def send_def)
  have "take (length (tx s2)) (tx (snd (moveToNextFile s2))) = tx s2" by (rule move_fields)
  then show "take (Suc (length (tx s))) (tx (rejectFileTransfer s)) = tx s @ [Command_code REJECT]"
    unfolding r tx2 by simp
  show "m_files (rejectFileTransfer s) =
           (m_files s)[unat (m_currentFile s) := (currentFileInfo s)\<lparr>m_status := TransferRejected\<rparr>]"
    "m_fileInTransfer (rejectFileTransfer s) = None"
    "m_skippedFiles (m_transferInfo (rejectFileTransfer s)) =
       m_skippedFiles (m_transferInfo s) + 1"
    "m_transferredFiles (m_transferInfo (rejectFileTransfer s)) =
       m_transferredFiles (m_transferInfo s)"
    "m_skippedBytes (m_transferInfo (rejectFileTransfer s)) =
       m_skippedBytes (m_transferInfo s) + m_size (currentFileInfo s)"
    "m_currentFile (rejectFileTransfer s) = m_currentFile s + 1"
    unfolding r move_fields
    using assms
    by (simp_all add: s2_def Let_def setFileStatus_def sendCommand_def send_def
          currentFileInfo_def)
qed

lemma acceptFileTransfer_effects:
  assumes "unat (m_currentFile s) < length (m_files s)"
  shows "m_files (acceptFileTransfer
            (s\<lparr>m_files := (m_files s)[unat (m_currentFile s) := accepted],
               m_fileInTransfer := Some writer\<rparr>)) =
           (m_files s)[unat (m_currentFile s) := accepted\<lparr>m_status := InTransfer\<rparr>]"
    "m_fileInTransfer (acceptFileTransfer
            (s\<lparr>m_files := (m_files s)[unat (m_currentFile s) := accepted],
               m_fileInTransfer := Some writer\<rparr>)) = Some writer"
    "tx (acceptFileTransfer
            (s\<lparr>m_files := (m_files s)[unat (m_currentFile s) := accepted],
               m_fileInTransfer := Some writer\<rparr>)) = tx s @ [Command_code ACCEPT]"
    "r_status (acceptFileTransfer
            (s\<lparr>m_files := (m_files s)[unat (m_currentFile s) := accepted],
               m_fileInTransfer := Some writer\<rparr>)) = r_status s"
    "m_currentFile (acceptFileTransfer
            (s\<lparr>m_files := (m_files s)[unat (m_currentFile s) := accepted],
               m_fileInTransfer := Some writer\<rparr>)) = m_currentFile s"
    "m_transferInfo (acceptFileTransfer
            (s\<lparr>m_files := (m_files s)[unat (m_currentFile s) := accepted],
               m_fileInTransfer := Some writer\<rparr>)) = m_transferInfo s"
  using assms
  by (simp_all add: acceptFileTransfer_def setFileStatus_def sendCommand_def send_def)

lemma fileName_subset: "set (fileName p) \<subseteq> set p"
  by (auto simp: fileName_def dest: set_takeWhileD)

lemma baseName_subset: "set (baseName p) \<subseteq> set p"
  using fileName_subset [of p] by (auto simp: baseName_def dest: set_takeWhileD)

lemma completeSuffix_subset: "set (completeSuffix p) \<subseteq> set p"
proof
  fix x assume "x \<in> set (completeSuffix p)"
  then have "x \<in> set (dropWhile (\<lambda>c. c \<noteq> CHR ''.'') (fileName p))"
    unfolding completeSuffix_def
    by (cases "dropWhile (\<lambda>c. c \<noteq> CHR ''.'') (fileName p)") auto
  then have "x \<in> set (fileName p)" by (rule set_dropWhileD)
  then show "x \<in> set p" using fileName_subset [of p] by blast
qed

lemma newFile_plain:
  assumes "CHR ''%'' \<notin> set (m_path f)" "CHR ''%'' \<notin> set (m_name f)"
  shows "m_filePath (newFile env f c) =
      cleanPath (candidate_name (m_path f) (baseName (m_name f)) (completeSuffix (m_name f))
        (unat c))"
proof -
  have "CHR ''%'' \<notin> set (baseName (m_name f))" "CHR ''%'' \<notin> set (completeSuffix (m_name f))"
    using assms(2) baseName_subset [of "m_name f"] completeSuffix_subset [of "m_name f"]
    by blast+
  then show ?thesis
    using assms(1) by (simp add: newFile_def FileInfo_new_def Let_def newPath_plain)
qed

text \<open>
  Claim C5.  Let the current file be in the list and let its directory and its name hold
  no \<open>%\<close>.  The candidate of the suffix \<open>k\<close> is the cleaned form of the name that carries
  \<open>_k\<close> between the base name and the extension, after the base name when there is
  no extension, and after the dot and the name for a file whose base name is empty.  For
  \<open>KeepBoth\<close>, \<open>performDFAction\<close> takes the first suffix, counting up from 1, whose
  candidate cannot be opened or does not exist, every smaller suffix naming an existing
  file that could be opened.  When that candidate could be opened, the transfer is
  accepted under it: the candidate replaces the current file in the list with the status
  \<open>InTransfer\<close>, its writer becomes the file in transfer, and \<open>ACCEPT\<close> is sent.
  When it could not be opened, or when the counter wraps after 255, the file is rejected:
  its status becomes \<open>TransferRejected\<close>, the file in transfer is dropped, \<open>REJECT\<close>
  is sent, the file is counted as skipped and the receiver moves to the next file.

  Without the hypothesis on \<open>%\<close> the names differ: a place marker in the name of the
  file is filled by a later argument of the chain of \<open>QString::arg\<close>.
\<close>

theorem KeepBoth_first_free_name:
  assumes "unat (m_currentFile s) < length (m_files s)"
    and "CHR ''%'' \<notin> set (m_path (currentFileInfo s))"
    and "CHR ''%'' \<notin> set (m_name (currentFileInfo s))"
  shows
   "m_filePath (newFile env (currentFileInfo s) c) =
      cleanPath (candidate_name (m_path (currentFileInfo s))
        (baseName (m_name (currentFileInfo s))) (completeSuffix (m_name (currentFileInfo s)))
        (unat c)) \<and>
    (case keepBoth_first env (currentFileInfo s) [1 ..< 256] of
       Some (accepted, writer) \<Rightarrow>
         (\<exists>k. 1 \<le> k \<and> k < 256 \<and> accepted = newFile env (currentFileInfo s) (of_nat k) \<and>
              writer = openWriter env accepted \<and> \<not> m_error writer \<and> \<not> m_exists writer \<and>
              (\<forall>j. 1 \<le> j \<and> j < k \<longrightarrow> \<not> stop_at env (currentFileInfo s) j)) \<and>
         m_files (performDFAction env DF_KeepBoth s) =
           (m_files s)[unat (m_currentFile s) := accepted\<lparr>m_status := InTransfer\<rparr>] \<and>
         m_fileInTransfer (performDFAction env DF_KeepBoth s) = Some writer \<and>
         tx (performDFAction env DF_KeepBoth s) = tx s @ [Command_code ACCEPT] \<and>
         r_status (performDFAction env DF_KeepBoth s) = r_status s \<and>
         m_currentFile (performDFAction env DF_KeepBoth s) = m_currentFile s \<and>
         m_transferInfo (performDFAction env DF_KeepBoth s) = m_transferInfo s
     | None \<Rightarrow>
         ((\<forall>k. 1 \<le> k \<and> k < 256 \<longrightarrow> \<not> stop_at env (currentFileInfo s) k) \<or>
          (\<exists>k. 1 \<le> k \<and> k < 256 \<and>
               m_error (openWriter env (newFile env (currentFileInfo s) (of_nat k))) \<and>
               (\<forall>j. 1 \<le> j \<and> j < k \<longrightarrow> \<not> stop_at env (currentFileInfo s) j))) \<and>
         m_files (performDFAction env DF_KeepBoth s) =
           (m_files s)[unat (m_currentFile s) :=
              (currentFileInfo s)\<lparr>m_status := TransferRejected\<rparr>] \<and>
         m_fileInTransfer (performDFAction env DF_KeepBoth s) = None \<and>
         take (Suc (length (tx s))) (tx (performDFAction env DF_KeepBoth s)) =
           tx s @ [Command_code REJECT] \<and>
         m_skippedFiles (m_transferInfo (performDFAction env DF_KeepBoth s)) =
           m_skippedFiles (m_transferInfo s) + 1 \<and>
         m_transferredFiles (m_transferInfo (performDFAction env DF_KeepBoth s)) =
           m_transferredFiles (m_transferInfo s) \<and>
         m_currentFile (performDFAction env DF_KeepBoth s) = m_currentFile s + 1)"
proof -
  let ?f = "currentFileInfo s"
  have l: "keepBoth_loop env ?f 1 = keepBoth_first env ?f [1 ..< 256]"
    using keepBoth_loop_from [of 1 env ?f] by simp
  have a: "performDFAction env DF_KeepBoth s =
     (case keepBoth_first env ?f [1 ..< 256] of
        Some (accepted, writer) \<Rightarrow>
          acceptFileTransfer
            (s\<lparr>m_files := (m_files s)[unat (m_currentFile s) := accepted],
               m_fileInTransfer := Some writer\<rparr>)
      | None \<Rightarrow> rejectFileTransfer s)"
    unfolding performDFAction_def l by simp
  note n = newFile_plain [OF assms(2,3), of env c]
  show ?thesis
  proof (cases "keepBoth_first env ?f [1 ..< 256]")
    case None
    have p: "performDFAction env DF_KeepBoth s = rejectFileTransfer s"
      by (simp only: a None option.case)
    show ?thesis
      unfolding None option.case p
      using keepBoth_first_None [OF None] n
      by (simp add: rejectFileTransfer_effects [OF assms(1)])
  next
    case (Some r)
    obtain accepted writer where r: "r = (accepted, writer)" by (cases r)
    have p: "performDFAction env DF_KeepBoth s =
        acceptFileTransfer
            (s\<lparr>m_files := (m_files s)[unat (m_currentFile s) := accepted],
               m_fileInTransfer := Some writer\<rparr>)"
      by (simp only: a Some r option.case prod.case)
    from keepBoth_first_Some [OF Some [unfolded r]]
    have "\<exists>k. 1 \<le> k \<and> k < 256 \<and> accepted = newFile env ?f (of_nat k) \<and>
              writer = openWriter env accepted \<and> \<not> m_error writer \<and> \<not> m_exists writer \<and>
              (\<forall>j. 1 \<le> j \<and> j < k \<longrightarrow> \<not> stop_at env ?f j)"
      by blast
    then show ?thesis
      unfolding Some r option.case prod.case p
      using n by (simp add: acceptFileTransfer_effects [OF assms(1)])
  qed
qed

lemma sample_current:
  "unat (m_currentFile sample_receiver) < length (m_files sample_receiver)"
  "CHR ''%'' \<notin> set (m_path (currentFileInfo sample_receiver))"
  "CHR ''%'' \<notin> set (m_name (currentFileInfo sample_receiver))"
  by (simp_all add: sample_receiver_def Receiver_new_def currentFileInfo_def sample_file_def)

lemma sample_first:
  "keepBoth_first (sample_env (\<lambda>p. p = ''a.txt'') True) (currentFileInfo sample_receiver)
       [1 ..< 256] =
     Some (FileInfo_new ''a_1.txt'' 10000 sample_date,
           openWriter (sample_env (\<lambda>p. p = ''a.txt'') True)
             (FileInfo_new ''a_1.txt'' 10000 sample_date))"
  by code_simp

lemma sample_none:
  "keepBoth_first (sample_env (\<lambda>p. True) False) (currentFileInfo sample_receiver) [1 ..< 256] =
     None"
  by code_simp

lemma sample_updates:
  "(m_files sample_receiver)[unat (m_currentFile sample_receiver) := f] = [f]"
  "m_currentFile sample_receiver + 1 = 1"
  "tx sample_receiver = []"
  by (simp_all add: sample_receiver_def Receiver_new_def)

lemma sample_candidate:
  "cleanPath (candidate_name (m_path (currentFileInfo sample_receiver))
        (baseName (m_name (currentFileInfo sample_receiver)))
        (completeSuffix (m_name (currentFileInfo sample_receiver))) (unat (1 :: quint8))) =
     ''a_1.txt''"
  by code_simp

theorem KeepBoth_first_free_name_witness:
  "unat (m_currentFile sample_receiver) < length (m_files sample_receiver) \<and>
   CHR ''%'' \<notin> set (m_path (currentFileInfo sample_receiver)) \<and>
   CHR ''%'' \<notin> set (m_name (currentFileInfo sample_receiver)) \<and>
   m_filePath (newFile (sample_env (\<lambda>p. p = ''a.txt'') True) (currentFileInfo sample_receiver) 1) =
     ''a_1.txt'' \<and>
   m_files (performDFAction (sample_env (\<lambda>p. p = ''a.txt'') True) DF_KeepBoth sample_receiver) =
     [(FileInfo_new ''a_1.txt'' 10000 sample_date)\<lparr>m_status := InTransfer\<rparr>] \<and>
   tx (performDFAction (sample_env (\<lambda>p. p = ''a.txt'') True) DF_KeepBoth sample_receiver) =
     [Command_code ACCEPT] \<and>
   m_files (performDFAction (sample_env (\<lambda>p. True) False) DF_KeepBoth sample_receiver) =
     [(currentFileInfo sample_receiver)\<lparr>m_status := TransferRejected\<rparr>] \<and>
   m_fileInTransfer (performDFAction (sample_env (\<lambda>p. True) False) DF_KeepBoth sample_receiver) =
     None \<and>
   m_currentFile (performDFAction (sample_env (\<lambda>p. True) False) DF_KeepBoth sample_receiver) = 1"
proof -
  note t1 = KeepBoth_first_free_name
      [OF sample_current, where env = "sample_env (\<lambda>p. p = ''a.txt'') True" and c = 1,
       unfolded sample_first option.case prod.case sample_updates sample_candidate]
  note t2 = KeepBoth_first_free_name
      [OF sample_current, where env = "sample_env (\<lambda>p. True) False" and c = 1,
       unfolded sample_none option.case sample_updates sample_candidate]
  from t1 t2 sample_current show ?thesis by simp
qed

text \<open>
  Claim C5 fails for a file with a place marker in its name: for \<open>a%1.txt\<close> the chain
  of \<open>arg\<close> calls fills the marker \<open>%1\<close> of the name with the counter and the marker
  \<open>%3\<close> of the pattern with the extension, and the file is accepted under the name
  \<open>a1_txt.%4\<close> where the claim has \<open>a%1_1.txt\<close>.
\<close>

theorem KeepBoth_marker_in_name:
  "newPath (sample_env (\<lambda>p. False) True) ''.'' (baseName ''a%1.txt'')
       (completeSuffix ''a%1.txt'') 1 = ''./a1_txt.%4'' \<and>
   map_option (m_filePath \<circ> fst)
     (keepBoth_loop (sample_env (\<lambda>p. False) True) (FileInfo_new ''a%1.txt'' 3 sample_date) 1) =
     Some ''a1_txt.%4'' \<and>
   candidate_name ''.'' (baseName ''a%1.txt'') (completeSuffix ''a%1.txt'') 1 = ''./a%1_1.txt''"
  by code_simp

subsection \<open>Terminal states of a receiver\<close>









end
